theory Spec2Isabelle
  imports Main
begin

section \<open>Python values: errors, lists and dictionaries\<close>

text \<open>
  The notebook \<^verbatim>\<open>docs/qaoa/Routing-with-Tket.ipynb\<close> is a straight-line Python script.
  Every exception it can raise is a value of \<open>error\<close>; an \<open>AssertionError\<close> carries the
  assertion that raised it (the traceback of the Python exception names the line), and
  \<open>RuntimeError\<close> is what \<^verbatim>\<open>passes.apply(unit)\<close> raises when the library refuses a pass.
\<close>

datatype assertion =
    Assert_valid
  | Assert_index_len "int list"
  | Assert_adjacent
  | Assert_allclose

datatype error = AssertionError assertion | IndexError | KeyError | ValueError | RuntimeError

text \<open>\<^verbatim>\<open>len(xs)\<close>, \<^verbatim>\<open>range(n)\<close> (empty for \<open>n \<le> 0\<close>) and \<^verbatim>\<open>enumerate(xs)\<close>.\<close>

definition len :: "'a list \<Rightarrow> int" where
  "len xs = int (length xs)"

definition range_py :: "int \<Rightarrow> int list" where
  "range_py n = map int [0..<nat n]"

definition enumerate_py :: "'a list \<Rightarrow> (int \<times> 'a) list" where
  "enumerate_py xs = zip (range_py (len xs)) xs"

text \<open>\<^verbatim>\<open>xs[i]\<close>: an index in \<open>-len(xs) .. -1\<close> counts from the end, any index outside
  \<open>-len(xs) .. len(xs)-1\<close> raises \<open>IndexError\<close>.\<close>

definition list_getitem :: "'a list \<Rightarrow> int \<Rightarrow> error + 'a" where
  "list_getitem xs i =
     (if 0 \<le> i \<and> i < len xs then Inr (xs ! nat i)
      else if - len xs \<le> i \<and> i < 0 then Inr (xs ! nat (len xs + i))
      else Inl IndexError)"

text \<open>\<^verbatim>\<open>d[k]\<close> on a dict: \<open>KeyError\<close> for a missing key.\<close>

definition dict_getitem :: "('k \<rightharpoonup> 'v) \<Rightarrow> 'k \<Rightarrow> error + 'v" where
  "dict_getitem d k = (case d k of None \<Rightarrow> Inl KeyError | Some v \<Rightarrow> Inr v)"

text \<open>\<^verbatim>\<open>xs.index(y)\<close>: the first position of \<open>y\<close>, \<open>ValueError\<close> when \<open>y\<close> is absent.\<close>

fun list_index :: "'a list \<Rightarrow> 'a \<Rightarrow> error + int" where
  "list_index [] y = Inl ValueError"
| "list_index (x # xs) y =
     (if x = y then Inr 0
      else (case list_index xs y of Inl e \<Rightarrow> Inl e | Inr i \<Rightarrow> Inr (i + 1)))"

text \<open>A list comprehension \<^verbatim>\<open>[f(x) for x in xs]\<close> whose element expression may raise:
  the first exception ends the comprehension.\<close>

fun list_comp :: "('a \<Rightarrow> error + 'b) \<Rightarrow> 'a list \<Rightarrow> error + 'b list" where
  "list_comp f [] = Inr []"
| "list_comp f (x # xs) =
     (case f x of
        Inl e \<Rightarrow> Inl e
      | Inr y \<Rightarrow> (case list_comp f xs of Inl e \<Rightarrow> Inl e | Inr ys \<Rightarrow> Inr (y # ys)))"

text \<open>A dict comprehension \<^verbatim>\<open>{k(x): v(x) for x in xs}\<close>: entries are stored in iteration
  order, a later entry replaces an earlier one with the same key.\<close>

fun dict_comp :: "('a \<Rightarrow> error + 'k \<times> 'v) \<Rightarrow> 'a list \<Rightarrow> ('k \<rightharpoonup> 'v) \<Rightarrow> error + ('k \<rightharpoonup> 'v)" where
  "dict_comp f [] d = Inr d"
| "dict_comp f (x # xs) d =
     (case f x of
        Inl e \<Rightarrow> Inl e
      | Inr (k, v) \<Rightarrow> dict_comp f xs (d(k \<mapsto> v)))"

section \<open>Qubits\<close>

text \<open>
  \<^verbatim>\<open>cirq.GridQubit(row, col)\<close>: the library compares grid qubits by \<open>(row, col)\<close>
  lexicographically, and \<^verbatim>\<open>a.is_adjacent(b)\<close> holds when the two are at Manhattan distance
  one. \<^verbatim>\<open>cirq.LineQubit(x)\<close> is a qubit on a line.
\<close>

datatype GridQubit = GridQubit (row: int) (col: int)

instantiation GridQubit :: linorder
begin

definition less_eq_GridQubit :: "GridQubit \<Rightarrow> GridQubit \<Rightarrow> bool" where
  "less_eq_GridQubit a b \<longleftrightarrow> row a < row b \<or> (row a = row b \<and> col a \<le> col b)"

definition less_GridQubit :: "GridQubit \<Rightarrow> GridQubit \<Rightarrow> bool" where
  "less_GridQubit a b \<longleftrightarrow> row a < row b \<or> (row a = row b \<and> col a < col b)"

instance
proof
  fix a b c :: GridQubit
  show "a < b \<longleftrightarrow> a \<le> b \<and> \<not> b \<le> a"
    by (auto simp: less_eq_GridQubit_def less_GridQubit_def)
  show "a \<le> a"
    by (simp add: less_eq_GridQubit_def)
  show "a \<le> b \<Longrightarrow> b \<le> c \<Longrightarrow> a \<le> c"
    by (auto simp: less_eq_GridQubit_def)
  show "a \<le> b \<Longrightarrow> b \<le> a \<Longrightarrow> a = b"
    by (cases a, cases b) (auto simp: less_eq_GridQubit_def)
  show "a \<le> b \<or> b \<le> a"
    by (auto simp: less_eq_GridQubit_def)
qed

end

definition is_adjacent :: "GridQubit \<Rightarrow> GridQubit \<Rightarrow> bool" where
  "is_adjacent a b \<longleftrightarrow> \<bar>row a - row b\<bar> + \<bar>col a - col b\<bar> = 1"

datatype LineQubit = LineQubit (line_x: int)

section \<open>The index mapping (cell "Mapping to device indices")\<close>

text \<open>
  \<^verbatim>\<open>index_to_qubit = sorted(device.qubit_set())\<close>
  \<^verbatim>\<open>qubit_to_index = {q: i for i, q in enumerate(index_to_qubit)}\<close>
  The qubit set is a Python frozenset, so a finite set; sorting it lists its elements in
  increasing order.
\<close>

definition index_to_qubit :: "'q::linorder set \<Rightarrow> 'q list" where
  "index_to_qubit qubit_set = sorted_list_of_set qubit_set"

fun qubit_to_index_loop :: "(int \<times> 'q) list \<Rightarrow> ('q \<rightharpoonup> int) \<Rightarrow> ('q \<rightharpoonup> int)" where
  "qubit_to_index_loop [] d = d"
| "qubit_to_index_loop ((i, q) # ps) d = qubit_to_index_loop ps (d(q \<mapsto> i))"

definition qubit_to_index :: "'q list \<Rightarrow> ('q \<rightharpoonup> int)" where
  "qubit_to_index itq = qubit_to_index_loop (enumerate_py itq) Map.empty"

section \<open>Circuits\<close>

text \<open>
  A circuit is the list of its operations in the order in which
  \<^verbatim>\<open>findall_operations_with_gate_type\<close> walks them (moment by moment). An operation is a gate
  on a tuple of qubits. Of a gate the notebook only asks whether it is an instance of
  \<^verbatim>\<open>cirq.TwoQubitGate\<close>; the one gate it builds itself is the
  \<^verbatim>\<open>LinearPermutationGate(num_qubits, permutation)\<close>, whose dict is kept as the list of
  its items in insertion order.
\<close>

datatype gate =
    SingleQubitGate string
  | TwoQubitGate string
  | LinearPermutationGate int "(int \<times> int) list"
  | OtherGate string

datatype 'q operation = Operation (gate: gate) (qubits: "'q list")

fun isinstance_TwoQubitGate :: "gate \<Rightarrow> bool" where
  "isinstance_TwoQubitGate (TwoQubitGate _) = True"
| "isinstance_TwoQubitGate _ = False"

text \<open>\<^verbatim>\<open>circuit.transform_qubits(func)\<close> with a \<open>func\<close> that may raise.\<close>

definition transform_qubits :: "('p \<Rightarrow> error + 'q) \<Rightarrow> 'p operation list \<Rightarrow> error + 'q operation list" where
  "transform_qubits func c =
     list_comp (\<lambda>oper. case list_comp func (qubits oper) of
                         Inl e \<Rightarrow> Inl e
                       | Inr qs \<Rightarrow> Inr (Operation (gate oper) qs)) c"

section \<open>The tket side\<close>

text \<open>
  A tket qubit or node is a register name with an index tuple. The libraries the notebook
  calls (cirq, pytket, numpy) are not part of the repository: what they return is an input
  of the model, the record \<open>external\<close>. A compilation unit holds a circuit, the initial
  and final maps (the items of each dict in iteration order) and the predicates it was
  built with; a pass changes the first three.
\<close>

datatype UnitID = UnitID (reg_name: string) (index: "int list")

datatype predicate = ConnectivityPredicate "(int \<times> int) list"

record CompilationUnit =
  unit_circuit :: "UnitID operation list"
  unit_initial_map :: "(UnitID \<times> UnitID) list"
  unit_final_map :: "(UnitID \<times> UnitID) list"
  unit_predicates :: "predicate list"

record external =
  device_qubit_set :: "GridQubit set"
  xmon_device_to_graph :: "(GridQubit \<times> GridQubit) list"
  problem_circuit :: "LineQubit operation list"
  cirq_to_tk :: "LineQubit operation list \<Rightarrow> UnitID operation list"
  tk_to_cirq :: "UnitID operation list \<Rightarrow> LineQubit operation list"
  graph_placement :: "(int \<times> int) list \<Rightarrow> CompilationUnit \<Rightarrow> CompilationUnit option"
  routing :: "(int \<times> int) list \<Rightarrow> CompilationUnit \<Rightarrow> CompilationUnit option"
  verify :: "predicate \<Rightarrow> UnitID operation list \<Rightarrow> bool"
  allclose_up_to_global_phase ::
    "LineQubit operation list \<Rightarrow> LineQubit list \<Rightarrow> GridQubit operation list \<Rightarrow> GridQubit list \<Rightarrow> bool"

text \<open>
  \<^item> \<open>device_qubit_set\<close>: \<^verbatim>\<open>device.qubit_set()\<close> of \<^verbatim>\<open>cg.Sycamore23\<close>;
  \<^item> \<open>xmon_device_to_graph\<close>: the edges of \<^verbatim>\<open>ccr.xmon_device_to_graph(device)\<close>;
  \<^item> \<open>problem_circuit\<close>: the random QAOA circuit on \<open>circuit_qubits\<close>;
  \<^item> \<open>graph_placement dev\<close>, \<open>routing dev\<close>: what \<^verbatim>\<open>PlacementPass(GraphPlacement(dev))\<close>
    and \<^verbatim>\<open>RoutingPass(dev)\<close> do to a compilation unit, \<open>None\<close> when the library raises
    \<open>RuntimeError\<close> instead;
  \<^item> \<open>verify\<close>: whether a circuit satisfies a predicate;
  \<^item> \<open>allclose_up_to_global_phase c order c' order'\<close>: whether the floating-point unitaries
    of \<open>c\<close> and \<open>c'\<close>, each over its qubit order, agree up to a global phase within
    \<open>atol = 1e-8\<close>.
\<close>

definition CompilationUnit_init :: "UnitID operation list \<Rightarrow> predicate list \<Rightarrow> CompilationUnit" where
  "CompilationUnit_init c preds =
     \<lparr>unit_circuit = c,
      unit_initial_map = map (\<lambda>q. (q, q)) (remdups (concat (map qubits c))),
      unit_final_map = map (\<lambda>q. (q, q)) (remdups (concat (map qubits c))),
      unit_predicates = preds\<rparr>"

datatype base_pass =
    PlacementPass "(int \<times> int) list"
  | RoutingPass "(int \<times> int) list"
  | SequencePass "base_pass list"

text \<open>\<^verbatim>\<open>passes.apply(unit)\<close>: a sequence applies its passes from left to right and stops at
  the first pass that raises.\<close>

fun apply_pass :: "external \<Rightarrow> base_pass \<Rightarrow> CompilationUnit \<Rightarrow> error + CompilationUnit"
  and apply_sequence :: "external \<Rightarrow> base_pass list \<Rightarrow> CompilationUnit \<Rightarrow> error + CompilationUnit" where
  "apply_pass ext (PlacementPass dev) u =
     (case graph_placement ext dev u of
        None \<Rightarrow> Inl RuntimeError
      | Some u' \<Rightarrow> Inr (u'\<lparr>unit_predicates := unit_predicates u\<rparr>))"
| "apply_pass ext (RoutingPass dev) u =
     (case routing ext dev u of
        None \<Rightarrow> Inl RuntimeError
      | Some u' \<Rightarrow> Inr (u'\<lparr>unit_predicates := unit_predicates u\<rparr>))"
| "apply_pass ext (SequencePass ps) u = apply_sequence ext ps u"
| "apply_sequence ext [] u = Inr u"
| "apply_sequence ext (p # ps) u =
     (case apply_pass ext p u of
        Inl e \<Rightarrow> Inl e
      | Inr u' \<Rightarrow> apply_sequence ext ps u')"

text \<open>
  \<^verbatim>\<open>pytket.routing.Architecture(edges)\<close> names the node with index \<open>i\<close> \<open>node[i]\<close>; its nodes are
  the end points of its edges. The library documents the connectivity predicate of an
  architecture as: every qubit of the circuit is a node of the architecture, and every
  operation on two qubits acts on two nodes joined by an edge, in either direction.
  \<open>connectivity\<close> is that condition; what \<open>verify\<close> of a run returns is the library's.
\<close>

definition tk_node :: "int \<Rightarrow> UnitID" where
  "tk_node i = UnitID ''node'' [i]"

definition architecture_nodes :: "(int \<times> int) list \<Rightarrow> UnitID list" where
  "architecture_nodes arc = concat (map (\<lambda>(i, j). [tk_node i, tk_node j]) arc)"

definition joined :: "(int \<times> int) list \<Rightarrow> UnitID \<Rightarrow> UnitID \<Rightarrow> bool" where
  "joined arc a b =
     list_ex (\<lambda>(i, j). (a = tk_node i \<and> b = tk_node j) \<or> (a = tk_node j \<and> b = tk_node i)) arc"

definition connectivity :: "(int \<times> int) list \<Rightarrow> UnitID operation list \<Rightarrow> bool" where
  "connectivity arc c =
     list_all (\<lambda>oper. list_all (\<lambda>n. n \<in> set (architecture_nodes arc)) (qubits oper)
                     \<and> (case qubits oper of [a, b] \<Rightarrow> joined arc a b | _ \<Rightarrow> True)) c"


definition check_all_predicates :: "external \<Rightarrow> CompilationUnit \<Rightarrow> bool" where
  "check_all_predicates ext u = list_all (\<lambda>p. verify ext p (unit_circuit u)) (unit_predicates u)"

text \<open>
  \<^verbatim>\<open>def tk_to_i(tk):\<close>
  \<^verbatim>\<open>    i = tk.index\<close>
  \<^verbatim>\<open>    assert len(i) == 1, i\<close>
  \<^verbatim>\<open>    return i[0]\<close>
\<close>

definition tk_to_i :: "UnitID \<Rightarrow> error + int" where
  "tk_to_i tk =
     (let i = index tk
      in if len i = 1 then list_getitem i 0 else Inl (AssertionError (Assert_index_len i)))"

text \<open>
  \<^verbatim>\<open>{cirq.LineQubit(tk_to_i(n1)): index_to_qubit[tk_to_i(n2)] for n1, n2 in m.items()}\<close>,
  the decoding of \<^verbatim>\<open>unit.initial_map\<close> and of \<^verbatim>\<open>unit.final_map\<close>. The key is evaluated
  before the value (Python 3.8 and later; earlier versions evaluate the value first, which
  only changes which exception is raised when both expressions fail).
\<close>

definition decode_item :: "'q list \<Rightarrow> UnitID \<times> UnitID \<Rightarrow> error + LineQubit \<times> 'q" where
  "decode_item itq item =
     (case item of (n1, n2) \<Rightarrow>
        (case tk_to_i n1 of
           Inl e \<Rightarrow> Inl e
         | Inr i1 \<Rightarrow>
             (case tk_to_i n2 of
                Inl e \<Rightarrow> Inl e
              | Inr i2 \<Rightarrow>
                  (case list_getitem itq i2 of
                     Inl e \<Rightarrow> Inl e
                   | Inr q \<Rightarrow> Inr (LineQubit i1, q)))))"

definition decode_map :: "'q list \<Rightarrow> (UnitID \<times> UnitID) list \<Rightarrow> error + (LineQubit \<rightharpoonup> 'q)" where
  "decode_map itq items = dict_comp (decode_item itq) items Map.empty"

section \<open>The cells of the notebook\<close>

text \<open>\<^verbatim>\<open>circuit_qubits = cirq.LineQubit.range(10, 20)\<close>\<close>

definition circuit_qubits :: "LineQubit list" where
  "circuit_qubits = map (\<lambda>n. LineQubit (int n)) [10..<20]"

text \<open>
  \<^verbatim>\<open>def _qubit_index_edges():\<close>
  \<^verbatim>\<open>    dev_graph = ccr.xmon_device_to_graph(device)\<close>
  \<^verbatim>\<open>    for n1, n2 in dev_graph.edges:\<close>
  \<^verbatim>\<open>        yield (qubit_to_index[n1], qubit_to_index[n2])\<close>
  consumed by \<^verbatim>\<open>list(...)\<close> in \<^verbatim>\<open>_device_to_tket_device\<close>, which wraps the edges into an
  architecture and a device.
\<close>

definition qubit_index_edges :: "external \<Rightarrow> (GridQubit \<rightharpoonup> int) \<Rightarrow> error + (int \<times> int) list" where
  "qubit_index_edges ext q2i =
     list_comp (\<lambda>edge. case edge of (n1, n2) \<Rightarrow>
                  (case dict_getitem q2i n1 of
                     Inl e \<Rightarrow> Inl e
                   | Inr i1 \<Rightarrow>
                       (case dict_getitem q2i n2 of
                          Inl e \<Rightarrow> Inl e
                        | Inr i2 \<Rightarrow> Inr (i1, i2))))
       (xmon_device_to_graph ext)"

definition device_to_tket_device :: "external \<Rightarrow> (GridQubit \<rightharpoonup> int) \<Rightarrow> error + (int \<times> int) list" where
  "device_to_tket_device ext q2i = qubit_index_edges ext q2i"

text \<open>
  \<^verbatim>\<open>for _, op, _ in routed_circuit.findall_operations_with_gate_type(cirq.TwoQubitGate):\<close>
  \<^verbatim>\<open>    a, b = op.qubits\<close>
  \<^verbatim>\<open>    assert a.is_adjacent(b)\<close>
  Unpacking a tuple that has not exactly two components raises \<open>ValueError\<close>.
\<close>

fun assert_adjacent :: "GridQubit operation list \<Rightarrow> error + unit" where
  "assert_adjacent [] = Inr ()"
| "assert_adjacent (oper # opers) =
     (if isinstance_TwoQubitGate (gate oper) then
        (case qubits oper of
           [a, b] \<Rightarrow>
             if is_adjacent a b then assert_adjacent opers
             else Inl (AssertionError Assert_adjacent)
         | _ \<Rightarrow> Inl ValueError)
      else assert_adjacent opers)"

text \<open>
  \<^verbatim>\<open>def permute_gate(qubits, permutation):\<close>
  \<^verbatim>\<open>    return cca.LinearPermutationGate(\<close>
  \<^verbatim>\<open>        num_qubits=len(qubits),\<close>
  \<^verbatim>\<open>        permutation={i: permutation[i] for i in range(len(permutation))}\<close>
  \<^verbatim>\<open>    ).on(*qubits)\<close>
  The model builds the dict and the operation; the checks the library's constructor makes
  on the dict are the library's.
\<close>

definition permute_gate :: "'q list \<Rightarrow> int list \<Rightarrow> error + 'q operation" where
  "permute_gate qs permutation =
     (case list_comp (\<lambda>i. case list_getitem permutation i of
                             Inl e \<Rightarrow> Inl e
                           | Inr p \<Rightarrow> Inr (i, p))
             (range_py (len permutation)) of
        Inl e \<Rightarrow> Inl e
      | Inr d \<Rightarrow> Inr (Operation (LinearPermutationGate (len qs) d) qs))"

text \<open>
  \<^verbatim>\<open>final_to_initial_map = {final_map[cq]: initial_map[cq] for cq in circuit_qubits}\<close>
  \<^verbatim>\<open>initial_qubits = [initial_map[cq] for cq in circuit_qubits]\<close>
  \<^verbatim>\<open>final_permutation = [initial_qubits.index(final_to_initial_map[q])\<close>
  \<^verbatim>\<open>                     for q in initial_qubits]\<close>
\<close>

definition final_to_initial_item ::
  "(LineQubit \<rightharpoonup> 'q) \<Rightarrow> (LineQubit \<rightharpoonup> 'q) \<Rightarrow> LineQubit \<Rightarrow> error + 'q \<times> 'q" where
  "final_to_initial_item initial_map final_map cq =
     (case dict_getitem final_map cq of
        Inl e \<Rightarrow> Inl e
      | Inr k \<Rightarrow>
          (case dict_getitem initial_map cq of
             Inl e \<Rightarrow> Inl e
           | Inr v \<Rightarrow> Inr (k, v)))"

definition final_to_initial_map ::
  "(LineQubit \<rightharpoonup> 'q) \<Rightarrow> (LineQubit \<rightharpoonup> 'q) \<Rightarrow> error + ('q \<rightharpoonup> 'q)" where
  "final_to_initial_map initial_map final_map =
     dict_comp (final_to_initial_item initial_map final_map) circuit_qubits Map.empty"

definition initial_qubits :: "(LineQubit \<rightharpoonup> 'q) \<Rightarrow> error + 'q list" where
  "initial_qubits initial_map = list_comp (dict_getitem initial_map) circuit_qubits"

definition final_permutation :: "('q \<rightharpoonup> 'q) \<Rightarrow> 'q list \<Rightarrow> error + int list" where
  "final_permutation f2i iq =
     list_comp (\<lambda>q. case dict_getitem f2i q of
                       Inl e \<Rightarrow> Inl e
                     | Inr t \<Rightarrow> list_index iq t) iq"

text \<open>
  The global variables of the notebook. A cell reads the variables assigned by the cells
  before it; the initial values below are never read.
\<close>

record globals =
  g_index_to_qubit :: "GridQubit list"
  g_qubit_to_index :: "GridQubit \<rightharpoonup> int"
  g_tk_circuit :: "UnitID operation list"
  g_tk_device :: "(int \<times> int) list"
  g_unit :: CompilationUnit
  g_valid :: bool
  g_initial_map :: "LineQubit \<rightharpoonup> GridQubit"
  g_final_map :: "LineQubit \<rightharpoonup> GridQubit"
  g_routed_circuit :: "GridQubit operation list"
  g_final_to_initial_map :: "GridQubit \<rightharpoonup> GridQubit"
  g_initial_qubits :: "GridQubit list"
  g_final_permutation :: "int list"
  g_rcircuit_with_perm :: "GridQubit operation list"

definition no_globals :: globals where
  "no_globals =
     \<lparr>g_index_to_qubit = [], g_qubit_to_index = Map.empty, g_tk_circuit = [],
      g_tk_device = [], g_unit = CompilationUnit_init [] [], g_valid = False,
      g_initial_map = Map.empty, g_final_map = Map.empty, g_routed_circuit = [],
      g_final_to_initial_map = Map.empty, g_initial_qubits = [], g_final_permutation = [],
      g_rcircuit_with_perm = []\<rparr>"

text \<open>The code cells that compute (the others import, draw or display a value).\<close>

datatype cell =
    Cell_index_mapping
  | Cell_tket_device
  | Cell_passes
  | Cell_initial_map
  | Cell_final_map
  | Cell_routed_circuit
  | Cell_adjacency
  | Cell_unitary

definition cell_index_mapping :: "external \<Rightarrow> globals \<Rightarrow> error + globals" where
  "cell_index_mapping ext g =
     (let itq = index_to_qubit (device_qubit_set ext)
      in Inr (g\<lparr>g_index_to_qubit := itq, g_qubit_to_index := qubit_to_index itq\<rparr>))"

definition cell_tket_device :: "external \<Rightarrow> globals \<Rightarrow> error + globals" where
  "cell_tket_device ext g =
     (let tk_circuit = cirq_to_tk ext (problem_circuit ext)
      in case device_to_tket_device ext (g_qubit_to_index g) of
           Inl e \<Rightarrow> Inl e
         | Inr tk_device \<Rightarrow> Inr (g\<lparr>g_tk_circuit := tk_circuit, g_tk_device := tk_device\<rparr>))"

text \<open>
  \<^verbatim>\<open>unit = CompilationUnit(tk_circuit, [ConnectivityPredicate(tk_device)])\<close>
  \<^verbatim>\<open>passes = SequencePass([\<close>
  \<^verbatim>\<open>    PlacementPass(GraphPlacement(tk_device)),\<close>
  \<^verbatim>\<open>    RoutingPass(tk_device)])\<close>
  \<^verbatim>\<open>passes.apply(unit)\<close>
  \<^verbatim>\<open>valid = unit.check_all_predicates()\<close>
  \<^verbatim>\<open>assert valid\<close>
\<close>

definition passes :: "(int \<times> int) list \<Rightarrow> base_pass" where
  "passes tk_device = SequencePass [PlacementPass tk_device, RoutingPass tk_device]"

definition cell_passes :: "external \<Rightarrow> globals \<Rightarrow> error + globals" where
  "cell_passes ext g =
     (let unit0 = CompilationUnit_init (g_tk_circuit g) [ConnectivityPredicate (g_tk_device g)]
      in case apply_pass ext (passes (g_tk_device g)) unit0 of
           Inl e \<Rightarrow> Inl e
         | Inr unit1 \<Rightarrow>
             (let valid = check_all_predicates ext unit1
              in if valid then Inr (g\<lparr>g_unit := unit1, g_valid := valid\<rparr>)
                 else Inl (AssertionError Assert_valid)))"

definition cell_initial_map :: "external \<Rightarrow> globals \<Rightarrow> error + globals" where
  "cell_initial_map ext g =
     (case decode_map (g_index_to_qubit g) (unit_initial_map (g_unit g)) of
        Inl e \<Rightarrow> Inl e
      | Inr m \<Rightarrow> Inr (g\<lparr>g_initial_map := m\<rparr>))"

definition cell_final_map :: "external \<Rightarrow> globals \<Rightarrow> error + globals" where
  "cell_final_map ext g =
     (case decode_map (g_index_to_qubit g) (unit_final_map (g_unit g)) of
        Inl e \<Rightarrow> Inl e
      | Inr m \<Rightarrow> Inr (g\<lparr>g_final_map := m\<rparr>))"

text \<open>
  \<^verbatim>\<open>routed_circuit = pytket.cirq.tk_to_cirq(unit.circuit)\<close>
  \<^verbatim>\<open>routed_circuit = routed_circuit.transform_qubits(lambda q: index_to_qubit[q.x])\<close>
\<close>

definition cell_routed_circuit :: "external \<Rightarrow> globals \<Rightarrow> error + globals" where
  "cell_routed_circuit ext g =
     (case transform_qubits (\<lambda>q. list_getitem (g_index_to_qubit g) (line_x q))
             (tk_to_cirq ext (unit_circuit (g_unit g))) of
        Inl e \<Rightarrow> Inl e
      | Inr c \<Rightarrow> Inr (g\<lparr>g_routed_circuit := c\<rparr>))"

definition cell_adjacency :: "external \<Rightarrow> globals \<Rightarrow> error + globals" where
  "cell_adjacency ext g =
     (case assert_adjacent (g_routed_circuit g) of
        Inl e \<Rightarrow> Inl e
      | Inr _ \<Rightarrow> Inr g)"

text \<open>
  The last cell: the permutation, then
  \<^verbatim>\<open>rcircuit_with_perm = routed_circuit.copy()\<close>
  \<^verbatim>\<open>rcircuit_with_perm.append(permute_gate(initial_qubits, final_permutation))\<close>
  \<^verbatim>\<open>expected = circuit.unitary(qubit_order=cirq.QubitOrder.explicit(circuit_qubits))\<close>
  \<^verbatim>\<open>actual = rcircuit_with_perm.unitary(qubit_order=cirq.QubitOrder.explicit(initial_qubits))\<close>
  \<^verbatim>\<open>cirq.testing.assert_allclose_up_to_global_phase(expected, actual, atol=1e-8)\<close>
\<close>

definition cell_unitary :: "external \<Rightarrow> globals \<Rightarrow> error + globals" where
  "cell_unitary ext g =
     (case final_to_initial_map (g_initial_map g) (g_final_map g) of
        Inl e \<Rightarrow> Inl e
      | Inr f2i \<Rightarrow>
     (case initial_qubits (g_initial_map g) of
        Inl e \<Rightarrow> Inl e
      | Inr iq \<Rightarrow>
     (case final_permutation f2i iq of
        Inl e \<Rightarrow> Inl e
      | Inr perm \<Rightarrow>
     (case permute_gate iq perm of
        Inl e \<Rightarrow> Inl e
      | Inr pg \<Rightarrow>
          (let rc = g_routed_circuit g @ [pg]
           in if allclose_up_to_global_phase ext (problem_circuit ext) circuit_qubits rc iq
              then Inr (g\<lparr>g_final_to_initial_map := f2i, g_initial_qubits := iq,
                         g_final_permutation := perm, g_rcircuit_with_perm := rc\<rparr>)
              else Inl (AssertionError Assert_allclose))))))"

fun exec_cell :: "external \<Rightarrow> cell \<Rightarrow> globals \<Rightarrow> error + globals" where
  "exec_cell ext Cell_index_mapping g = cell_index_mapping ext g"
| "exec_cell ext Cell_tket_device g = cell_tket_device ext g"
| "exec_cell ext Cell_passes g = cell_passes ext g"
| "exec_cell ext Cell_initial_map g = cell_initial_map ext g"
| "exec_cell ext Cell_final_map g = cell_final_map ext g"
| "exec_cell ext Cell_routed_circuit g = cell_routed_circuit ext g"
| "exec_cell ext Cell_adjacency g = cell_adjacency ext g"
| "exec_cell ext Cell_unitary g = cell_unitary ext g"

text \<open>
  Running the cells in order: no cell has an exception handler, so the first exception
  ends the run. The result is the list of the cells that were started, and the exception
  or the final globals.
\<close>

fun run_cells :: "external \<Rightarrow> cell list \<Rightarrow> globals \<Rightarrow> cell list \<times> (error + globals)" where
  "run_cells ext [] g = ([], Inr g)"
| "run_cells ext (c # cs) g =
     (case exec_cell ext c g of
        Inl e \<Rightarrow> ([c], Inl e)
      | Inr g' \<Rightarrow> (case run_cells ext cs g' of (started, r) \<Rightarrow> (c # started, r)))"

definition notebook_cells :: "cell list" where
  "notebook_cells =
     [Cell_index_mapping, Cell_tket_device, Cell_passes, Cell_initial_map, Cell_final_map,
      Cell_routed_circuit, Cell_adjacency, Cell_unitary]"

definition notebook :: "external \<Rightarrow> cell list \<times> (error + globals)" where
  "notebook ext = run_cells ext notebook_cells no_globals"

section \<open>The workflow "Deploy Docs"\<close>

text \<open>
  \<^verbatim>\<open>on:\<close>
  \<^verbatim>\<open>  push:\<close>
  \<^verbatim>\<open>    branches:\<close>
  \<^verbatim>\<open>    - master\<close>
  A workflow lists the events that start it. A \<open>push\<close> trigger with a \<open>branches\<close> filter
  starts the workflow for a push to a branch the filter names (the filter \<open>master\<close> has no
  wildcard, so it names that branch alone) and for no push of a tag.
\<close>

datatype event =
    Push_branch string
  | Push_tag string
  | Pull_request string
  | Workflow_dispatch
  | Schedule

datatype trigger = On_push_branches "string list"

record workflow =
  workflow_name :: string
  workflow_on :: "trigger list"

definition deploy_docs :: workflow where
  "deploy_docs = \<lparr>workflow_name = ''Deploy Docs'', workflow_on = [On_push_branches [''master'']]\<rparr>"

fun trigger_matches :: "trigger \<Rightarrow> event \<Rightarrow> bool" where
  "trigger_matches (On_push_branches bs) (Push_branch b) = (b \<in> set bs)"
| "trigger_matches (On_push_branches bs) _ = False"

definition triggered :: "workflow \<Rightarrow> event \<Rightarrow> bool" where
  "triggered w ev = list_ex (\<lambda>t. trigger_matches t ev) (workflow_on w)"

section \<open>Example runs\<close>

text \<open>
  A small run of the notebook, used to evaluate the model: a device of two rows of six
  qubits, a problem circuit with the gates \<open>ZZ(10, 11)\<close>, \<open>ZZ(10, 12)\<close> and \<open>X(13)\<close>, a
  placement of circuit qubit \<open>10 + k\<close> on node \<open>k\<close>, and a routing that swaps nodes 1 and 2
  before the second gate. The predicate check is \<open>connectivity\<close>.
\<close>

definition example_qubits :: "GridQubit list" where
  "example_qubits =
     [GridQubit 1 5, GridQubit 1 4, GridQubit 1 3, GridQubit 1 2, GridQubit 1 1, GridQubit 1 0,
      GridQubit 0 0, GridQubit 0 1, GridQubit 0 2, GridQubit 0 3, GridQubit 0 4, GridQubit 0 5]"

definition example_edges :: "(GridQubit \<times> GridQubit) list" where
  "example_edges =
     [(GridQubit 0 0, GridQubit 0 1), (GridQubit 0 1, GridQubit 0 2), (GridQubit 0 2, GridQubit 0 3),
      (GridQubit 0 3, GridQubit 0 4), (GridQubit 0 4, GridQubit 0 5),
      (GridQubit 1 0, GridQubit 1 1), (GridQubit 1 1, GridQubit 1 2), (GridQubit 1 2, GridQubit 1 3),
      (GridQubit 1 3, GridQubit 1 4), (GridQubit 1 4, GridQubit 1 5),
      (GridQubit 0 0, GridQubit 1 0), (GridQubit 0 1, GridQubit 1 1), (GridQubit 0 2, GridQubit 1 2),
      (GridQubit 0 3, GridQubit 1 3), (GridQubit 0 4, GridQubit 1 4), (GridQubit 0 5, GridQubit 1 5)]"

definition example_circuit :: "LineQubit operation list" where
  "example_circuit =
     [Operation (TwoQubitGate ''ZZ'') [LineQubit 10, LineQubit 11],
      Operation (TwoQubitGate ''ZZ'') [LineQubit 10, LineQubit 12],
      Operation (SingleQubitGate ''X'') [LineQubit 13]]"

definition tk_q :: "int \<Rightarrow> UnitID" where
  "tk_q i = UnitID ''q'' [i]"

definition example_placed :: CompilationUnit where
  "example_placed =
     \<lparr>unit_circuit =
        [Operation (TwoQubitGate ''ZZ'') [tk_node 0, tk_node 1],
         Operation (TwoQubitGate ''ZZ'') [tk_node 0, tk_node 2],
         Operation (SingleQubitGate ''X'') [tk_node 3]],
      unit_initial_map = map (\<lambda>k. (tk_q (10 + k), tk_node k)) [0, 1, 2, 3, 4, 5, 6, 7, 8, 9],
      unit_final_map = map (\<lambda>k. (tk_q (10 + k), tk_node k)) [0, 1, 2, 3, 4, 5, 6, 7, 8, 9],
      unit_predicates = []\<rparr>"

definition example_routed :: CompilationUnit where
  "example_routed =
     \<lparr>unit_circuit =
        [Operation (TwoQubitGate ''ZZ'') [tk_node 0, tk_node 1],
         Operation (TwoQubitGate ''SWAP'') [tk_node 1, tk_node 2],
         Operation (TwoQubitGate ''ZZ'') [tk_node 0, tk_node 1],
         Operation (SingleQubitGate ''X'') [tk_node 3]],
      unit_initial_map = map (\<lambda>k. (tk_q (10 + k), tk_node k)) [0, 1, 2, 3, 4, 5, 6, 7, 8, 9],
      unit_final_map =
        map (\<lambda>(k, n). (tk_q (10 + k), tk_node n))
          [(0, 0), (1, 2), (2, 1), (3, 3), (4, 4), (5, 5), (6, 6), (7, 7), (8, 8), (9, 9)],
      unit_predicates = []\<rparr>"

fun example_verify :: "predicate \<Rightarrow> UnitID operation list \<Rightarrow> bool" where
  "example_verify (ConnectivityPredicate arc) c = connectivity arc c"

definition example_run :: external where
  "example_run =
     \<lparr>device_qubit_set = set example_qubits,
      xmon_device_to_graph = example_edges,
      problem_circuit = example_circuit,
      cirq_to_tk = map (\<lambda>oper. Operation (gate oper) (map (\<lambda>q. tk_q (line_x q)) (qubits oper))),
      tk_to_cirq = map (\<lambda>oper. Operation (gate oper) (map (\<lambda>n. LineQubit (hd (index n))) (qubits oper))),
      graph_placement = (\<lambda>dev u. Some example_placed),
      routing = (\<lambda>dev u. Some example_routed),
      verify = example_verify,
      allclose_up_to_global_phase = (\<lambda>c order c' order'. True)\<rparr>"

text \<open>The same run with a routing pass that leaves the placed circuit as it is.\<close>

definition example_unrouted :: external where
  "example_unrouted = example_run\<lparr>routing := (\<lambda>dev u. Some example_placed)\<rparr>"

text \<open>The same run with a routing pass that leaves the placed circuit as it is and a
  predicate check that accepts every circuit.\<close>

definition example_unchecked :: external where
  "example_unchecked =
     example_run\<lparr>routing := (\<lambda>dev u. Some example_placed), verify := (\<lambda>p c. True)\<rparr>"

text \<open>The same run with unitaries that do not agree.\<close>

definition example_not_close :: external where
  "example_not_close = example_run\<lparr>allclose_up_to_global_phase := (\<lambda>c order c' order'. False)\<rparr>"

text \<open>The globals of the example run after its first two cells, where the index mapping, the
  tket circuit and the tket device are set.\<close>

definition example_globals :: globals where
  "example_globals =
     projr (snd (run_cells example_run [Cell_index_mapping, Cell_tket_device] no_globals))"

section \<open>The index mapping is a bijective lookup table\<close>

lemma enumerate_py_eq: "enumerate_py xs = zip (map int [0..<length xs]) xs"
  by (simp add: enumerate_py_def range_py_def len_def)

lemma loop_notin:
  "q \<notin> snd ` set ps \<Longrightarrow> qubit_to_index_loop ps d q = d q"
  by (induction ps arbitrary: d) auto

lemma loop_nth:
  "distinct (map snd ps) \<Longrightarrow> n < length ps \<Longrightarrow>
   qubit_to_index_loop ps d (snd (ps ! n)) = Some (fst (ps ! n))"
proof (induction ps arbitrary: d n)
  case Nil
  then show ?case by simp
next
  case (Cons p ps)
  obtain i q where p: "p = (i, q)" by (cases p)
  show ?case
  proof (cases n)
    case 0
    from Cons.prems have "q \<notin> snd ` set ps" by (simp add: p)
    then show ?thesis using 0 by (simp add: p loop_notin)
  next
    case (Suc m)
    then show ?thesis using Cons by (simp add: p)
  qed
qed

lemma loop_dom:
  "dom (qubit_to_index_loop ps d) = dom d \<union> snd ` set ps"
proof (induction ps arbitrary: d)
  case Nil
  then show ?case by simp
next
  case (Cons p ps)
  obtain i q where p: "p = (i, q)" by (cases p)
  have "dom (qubit_to_index_loop ps (d(q \<mapsto> i))) = dom (d(q \<mapsto> i)) \<union> snd ` set ps"
    by (rule Cons.IH)
  then show ?case by (simp add: p)
qed

lemma snd_set_enumerate: "snd ` set (enumerate_py xs) = set xs"
proof -
  have "map snd (enumerate_py xs) = xs"
    unfolding enumerate_py_eq by (rule map_snd_zip) simp
  then have "set (map snd (enumerate_py xs)) = set xs" by simp
  then show ?thesis by (simp only: set_map)
qed

lemma qubit_to_index_nth:
  assumes "distinct xs" "n < length xs"
  shows "qubit_to_index xs (xs ! n) = Some (int n)"
proof -
  let ?ps = "zip (map int [0..<length xs]) xs"
  have "distinct (map snd ?ps)" using assms(1) by simp
  moreover have "n < length ?ps" using assms(2) by simp
  ultimately have "qubit_to_index_loop ?ps Map.empty (snd (?ps ! n)) = Some (fst (?ps ! n))"
    by (rule loop_nth)
  then show ?thesis using assms(2) by (simp add: qubit_to_index_def enumerate_py_eq)
qed

lemma dom_qubit_to_index: "dom (qubit_to_index xs) = set xs"
  by (simp add: qubit_to_index_def loop_dom snd_set_enumerate)

lemma ran_qubit_to_index:
  assumes "distinct xs"
  shows "ran (qubit_to_index xs) = {0..<len xs}"
proof
  show "ran (qubit_to_index xs) \<subseteq> {0..<len xs}"
  proof
    fix i assume "i \<in> ran (qubit_to_index xs)"
    then obtain q where q: "qubit_to_index xs q = Some i" by (auto simp: ran_def)
    then have "q \<in> set xs" using dom_qubit_to_index[of xs] by auto
    then obtain n where n: "n < length xs" "xs ! n = q" by (auto simp: in_set_conv_nth)
    with assms q have "i = int n" using qubit_to_index_nth[of xs n] by simp
    with n show "i \<in> {0..<len xs}" by (simp add: len_def)
  qed
  show "{0..<len xs} \<subseteq> ran (qubit_to_index xs)"
  proof
    fix i assume "i \<in> {0..<len xs}"
    then have n: "nat i < length xs" "int (nat i) = i" by (auto simp: len_def)
    with assms have "qubit_to_index xs (xs ! nat i) = Some i"
      using qubit_to_index_nth[of xs "nat i"] by simp
    then show "i \<in> ran (qubit_to_index xs)" by (auto simp: ran_def)
  qed
qed

lemma index_to_qubit_props:
  assumes "finite S"
  shows "set (index_to_qubit S) = S" "distinct (index_to_qubit S)" "sorted (index_to_qubit S)"
    "length (index_to_qubit S) = card S"
  using assms by (simp_all add: index_to_qubit_def)

text \<open>
  Claim C3. For a finite qubit set, \<open>index_to_qubit\<close> and \<open>qubit_to_index\<close> are inverse
  lookups: \<^verbatim>\<open>index_to_qubit[qubit_to_index[q]] == q\<close> for every device qubit \<open>q\<close> (neither
  lookup raises), \<^verbatim>\<open>qubit_to_index[index_to_qubit[i]] == i\<close> for every \<open>i\<close> in
  \<^verbatim>\<open>range(len(index_to_qubit))\<close>, the indices in use are exactly \<open>0 .. n-1\<close> and the keys
  exactly the device qubits, where \<open>n\<close> is the number of device qubits.
\<close>

theorem index_mapping_bijective:
  assumes "finite qubit_set"
  shows "(\<forall>q\<in>qubit_set. \<exists>i. dict_getitem (qubit_to_index (index_to_qubit qubit_set)) q = Inr i
            \<and> list_getitem (index_to_qubit qubit_set) i = Inr q)
       \<and> (\<forall>i\<in>set (range_py (len (index_to_qubit qubit_set))).
            \<exists>q. list_getitem (index_to_qubit qubit_set) i = Inr q
              \<and> dict_getitem (qubit_to_index (index_to_qubit qubit_set)) q = Inr i)
       \<and> ran (qubit_to_index (index_to_qubit qubit_set)) = {0..<int (card qubit_set)}
       \<and> dom (qubit_to_index (index_to_qubit qubit_set)) = qubit_set
       \<and> len (index_to_qubit qubit_set) = int (card qubit_set)"
proof -
  let ?itq = "index_to_qubit qubit_set"
  note props = index_to_qubit_props[OF assms]
  have nth: "\<And>n. n < length ?itq \<Longrightarrow> qubit_to_index ?itq (?itq ! n) = Some (int n)"
    using props(2) by (rule qubit_to_index_nth)
  have a: "\<forall>q\<in>qubit_set. \<exists>i. dict_getitem (qubit_to_index ?itq) q = Inr i
            \<and> list_getitem ?itq i = Inr q"
  proof
    fix q assume "q \<in> qubit_set"
    then have "q \<in> set ?itq" using props(1) by simp
    then obtain n where n: "n < length ?itq" "?itq ! n = q" by (auto simp: in_set_conv_nth)
    have "dict_getitem (qubit_to_index ?itq) q = Inr (int n)"
      using nth[OF n(1)] n(2) by (simp add: dict_getitem_def)
    moreover have "list_getitem ?itq (int n) = Inr q"
      using n by (simp add: list_getitem_def len_def)
    ultimately show "\<exists>i. dict_getitem (qubit_to_index ?itq) q = Inr i \<and> list_getitem ?itq i = Inr q"
      by blast
  qed
  have b: "\<forall>i\<in>set (range_py (len ?itq)).
            \<exists>q. list_getitem ?itq i = Inr q \<and> dict_getitem (qubit_to_index ?itq) q = Inr i"
  proof
    fix i assume "i \<in> set (range_py (len ?itq))"
    then obtain n where n: "n < length ?itq" "i = int n"
      by (auto simp: range_py_def len_def)
    have "list_getitem ?itq i = Inr (?itq ! n)"
      using n by (simp add: list_getitem_def len_def)
    moreover have "dict_getitem (qubit_to_index ?itq) (?itq ! n) = Inr i"
      using nth[OF n(1)] n(2) by (simp add: dict_getitem_def)
    ultimately show "\<exists>q. list_getitem ?itq i = Inr q \<and> dict_getitem (qubit_to_index ?itq) q = Inr i"
      by blast
  qed
  have c: "ran (qubit_to_index ?itq) = {0..<int (card qubit_set)}"
    using ran_qubit_to_index[OF props(2)] props(4) by (simp add: len_def)
  have d: "dom (qubit_to_index ?itq) = qubit_set"
    using props(1) by (simp add: dom_qubit_to_index)
  have e: "len ?itq = int (card qubit_set)"
    using props(4) by (simp add: len_def)
  from a b c d e show ?thesis by blast
qed

text \<open>The theorem at a device of three qubits, given out of order.\<close>

theorem index_mapping_bijective_witness:
  "finite {GridQubit 5 2, GridQubit 4 1, GridQubit 4 2}
   \<and> dict_getitem (qubit_to_index (index_to_qubit {GridQubit 5 2, GridQubit 4 1, GridQubit 4 2}))
       (GridQubit 5 2) = Inr 2
   \<and> list_getitem (index_to_qubit {GridQubit 5 2, GridQubit 4 1, GridQubit 4 2}) 2
       = Inr (GridQubit 5 2)
   \<and> ran (qubit_to_index (index_to_qubit {GridQubit 5 2, GridQubit 4 1, GridQubit 4 2})) = {0..<3}
   \<and> dom (qubit_to_index (index_to_qubit {GridQubit 5 2, GridQubit 4 1, GridQubit 4 2}))
       = {GridQubit 5 2, GridQubit 4 1, GridQubit 4 2}
   \<and> len (index_to_qubit {GridQubit 5 2, GridQubit 4 1, GridQubit 4 2}) = 3"
proof -
  let ?S = "{GridQubit 5 2, GridQubit 4 1, GridQubit 4 2}"
  have fin: "finite ?S" by simp
  have card: "card ?S = 3" by simp
  note inst = index_mapping_bijective[OF fin]
  have "list_getitem (index_to_qubit ?S) 2 = Inr (GridQubit 5 2)"
    by code_simp
  moreover have "dict_getitem (qubit_to_index (index_to_qubit ?S)) (GridQubit 5 2) = Inr 2"
    by code_simp
  ultimately show ?thesis using inst fin card by simp
qed

section \<open>The index assignment preserves the qubit order\<close>

text \<open>
  Claim C10. \<open>index_to_qubit\<close> is the sorted list of the device's qubit set, so for two
  device qubits with \<open>q1 < q2\<close> both \<^verbatim>\<open>qubit_to_index\<close> lookups succeed and
  \<^verbatim>\<open>qubit_to_index[q1] < qubit_to_index[q2]\<close>.
\<close>

theorem qubit_to_index_order_preserving:
  assumes "finite qubit_set" "q1 \<in> qubit_set" "q2 \<in> qubit_set" "q1 < q2"
  shows "\<exists>i1 i2. dict_getitem (qubit_to_index (index_to_qubit qubit_set)) q1 = Inr i1
           \<and> dict_getitem (qubit_to_index (index_to_qubit qubit_set)) q2 = Inr i2
           \<and> i1 < i2"
proof -
  let ?itq = "index_to_qubit qubit_set"
  note props = index_to_qubit_props[OF assms(1)]
  from assms(2) props(1) have "q1 \<in> set ?itq" by simp
  then obtain n1 where n1: "n1 < length ?itq" "?itq ! n1 = q1"
    by (auto simp: in_set_conv_nth)
  from assms(3) props(1) have "q2 \<in> set ?itq" by simp
  then obtain n2 where n2: "n2 < length ?itq" "?itq ! n2 = q2"
    by (auto simp: in_set_conv_nth)
  have "n1 < n2"
  proof (rule ccontr)
    assume "\<not> n1 < n2"
    then have "n2 \<le> n1" by simp
    with props(3) n1(1) have "?itq ! n2 \<le> ?itq ! n1" by (simp add: sorted_nth_mono)
    with n1(2) n2(2) assms(4) show False by simp
  qed
  moreover have "dict_getitem (qubit_to_index ?itq) q1 = Inr (int n1)"
    using qubit_to_index_nth[OF props(2) n1(1)] n1(2) by (simp add: dict_getitem_def)
  moreover have "dict_getitem (qubit_to_index ?itq) q2 = Inr (int n2)"
    using qubit_to_index_nth[OF props(2) n2(1)] n2(2) by (simp add: dict_getitem_def)
  ultimately show ?thesis by simp
qed

text \<open>The theorem at two qubits of a three-qubit device.\<close>

theorem qubit_to_index_order_preserving_witness:
  "finite {GridQubit 5 2, GridQubit 4 1, GridQubit 4 2}
   \<and> GridQubit 4 2 \<in> {GridQubit 5 2, GridQubit 4 1, GridQubit 4 2}
   \<and> GridQubit 5 2 \<in> {GridQubit 5 2, GridQubit 4 1, GridQubit 4 2}
   \<and> GridQubit 4 2 < GridQubit 5 2
   \<and> (\<exists>i1 i2. dict_getitem (qubit_to_index (index_to_qubit {GridQubit 5 2, GridQubit 4 1, GridQubit 4 2}))
         (GridQubit 4 2) = Inr i1
       \<and> dict_getitem (qubit_to_index (index_to_qubit {GridQubit 5 2, GridQubit 4 1, GridQubit 4 2}))
         (GridQubit 5 2) = Inr i2
       \<and> i1 < i2)"
proof -
  let ?S = "{GridQubit 5 2, GridQubit 4 1, GridQubit 4 2}"
  have fin: "finite ?S" by simp
  have m1: "GridQubit 4 2 \<in> ?S" by simp
  have m2: "GridQubit 5 2 \<in> ?S" by simp
  have lt: "GridQubit 4 2 < GridQubit 5 2" by (simp add: less_GridQubit_def)
  from qubit_to_index_order_preserving[OF fin m1 m2 lt] fin m1 m2 lt show ?thesis by blast
qed

section \<open>Decoding tket qubits\<close>

lemma tk_to_i_cases:
  "tk_to_i tk = (case index tk of [i] \<Rightarrow> Inr i | other \<Rightarrow> Inl (AssertionError (Assert_index_len other)))"
  by (cases "index tk" rule: list.exhaust; cases "tl (index tk)")
     (auto simp: tk_to_i_def len_def list_getitem_def Let_def split: list.splits)

lemma dict_comp_total:
  "\<forall>x\<in>set xs. \<exists>kv. f x = Inr kv \<Longrightarrow> \<exists>m. dict_comp f xs d = Inr m"
proof (induction xs arbitrary: d)
  case Nil
  then show ?case by simp
next
  case (Cons x xs)
  then obtain k v where kv: "f x = Inr (k, v)" by fastforce
  from Cons.prems have "\<forall>y\<in>set xs. \<exists>kv. f y = Inr kv" by simp
  then have "\<exists>m. dict_comp f xs (d(k \<mapsto> v)) = Inr m" by (rule Cons.IH)
  then show ?case by (simp add: kv)
qed

lemma dict_comp_error:
  "dict_comp f xs d = Inl e \<Longrightarrow> \<exists>x\<in>set xs. f x = Inl e"
proof (induction xs arbitrary: d)
  case Nil
  then show ?case by simp
next
  case (Cons x xs)
  show ?case
  proof (cases "f x")
    case (Inl e')
    with Cons.prems show ?thesis by simp
  next
    case (Inr kv)
    obtain k v where "kv = (k, v)" by (cases kv)
    with Inr Cons.prems have "dict_comp f xs (d(k \<mapsto> v)) = Inl e" by simp
    then have "\<exists>y\<in>set xs. f y = Inl e" by (rule Cons.IH)
    then show ?thesis by auto
  qed
qed

lemma decode_item_single:
  assumes "len (index n1) = 1" "len (index n2) = 1"
  shows "decode_item itq (n1, n2) = Inl e \<Longrightarrow> e = IndexError"
    and "- len itq \<le> hd (index n2) \<Longrightarrow> hd (index n2) < len itq \<Longrightarrow> \<exists>kv. decode_item itq (n1, n2) = Inr kv"
proof -
  from assms(1) obtain i1 where i1: "index n1 = [i1]"
    by (cases "index n1"; cases "tl (index n1)") (auto simp: len_def)
  from assms(2) obtain i2 where i2: "index n2 = [i2]"
    by (cases "index n2"; cases "tl (index n2)") (auto simp: len_def)
  show "decode_item itq (n1, n2) = Inl e \<Longrightarrow> e = IndexError"
    by (auto simp: decode_item_def tk_to_i_cases i1 i2 list_getitem_def split: if_splits sum.splits)
  show "- len itq \<le> hd (index n2) \<Longrightarrow> hd (index n2) < len itq \<Longrightarrow> \<exists>kv. decode_item itq (n1, n2) = Inr kv"
    by (auto simp: decode_item_def tk_to_i_cases i1 i2 list_getitem_def split: if_splits sum.splits)
qed

text \<open>
  Claim C8, amended. \<open>tk_to_i\<close> returns the sole component of a one-component index and
  raises an \<open>AssertionError\<close> for every index tuple of another length. When every node of
  a map (\<^verbatim>\<open>unit.initial_map\<close> or \<^verbatim>\<open>unit.final_map\<close>) has a one-component index, decoding
  the map never raises an \<open>AssertionError\<close>: the only exception left is the \<open>IndexError\<close>
  of \<^verbatim>\<open>index_to_qubit[...]\<close>. When moreover the index \<open>i\<close> of every device node satisfies
  \<open>-n \<le> i < n\<close>, for \<open>n\<close> the length of \<open>index_to_qubit\<close>, decoding returns a map.
\<close>

theorem tk_to_i_decode_map:
  "tk_to_i tk = (case index tk of [i] \<Rightarrow> Inr i | other \<Rightarrow> Inl (AssertionError (Assert_index_len other)))
   \<and> ((\<forall>(n1, n2)\<in>set items. len (index n1) = 1 \<and> len (index n2) = 1)
        \<longrightarrow> (\<forall>e. decode_map itq items = Inl e \<longrightarrow> e = IndexError))
   \<and> ((\<forall>(n1, n2)\<in>set items. len (index n1) = 1 \<and> len (index n2) = 1
          \<and> - len itq \<le> hd (index n2) \<and> hd (index n2) < len itq)
        \<longrightarrow> (\<exists>m. decode_map itq items = Inr m))"
proof (intro conjI impI allI)
  show "tk_to_i tk = (case index tk of [i] \<Rightarrow> Inr i | other \<Rightarrow> Inl (AssertionError (Assert_index_len other)))"
    by (rule tk_to_i_cases)
next
  fix e
  assume single: "\<forall>(n1, n2)\<in>set items. len (index n1) = 1 \<and> len (index n2) = 1"
    and err: "decode_map itq items = Inl e"
  from err obtain item where item: "item \<in> set items" "decode_item itq item = Inl e"
    unfolding decode_map_def by (blast dest: dict_comp_error)
  obtain n1 n2 where p: "item = (n1, n2)" by (cases item)
  from single item(1) p have "len (index n1) = 1" "len (index n2) = 1" by auto
  then show "e = IndexError" using item(2) unfolding p by (rule decode_item_single(1))
next
  assume ok: "\<forall>(n1, n2)\<in>set items. len (index n1) = 1 \<and> len (index n2) = 1
          \<and> - len itq \<le> hd (index n2) \<and> hd (index n2) < len itq"
  have "\<forall>item\<in>set items. \<exists>kv. decode_item itq item = Inr kv"
  proof
    fix item assume "item \<in> set items"
    moreover obtain n1 n2 where p: "item = (n1, n2)" by (cases item)
    ultimately have "len (index n1) = 1" "len (index n2) = 1"
      "- len itq \<le> hd (index n2)" "hd (index n2) < len itq" using ok by auto
    then show "\<exists>kv. decode_item itq item = Inr kv" unfolding p by (rule decode_item_single(2))
  qed
  then show "\<exists>m. decode_map itq items = Inr m"
    unfolding decode_map_def by (rule dict_comp_total)
qed

text \<open>The theorem at a two-entry map over a device of three qubits, and at the node
  \<open>q[6, 1]\<close> with a two-component index.\<close>

theorem tk_to_i_decode_map_witness:
  "tk_to_i (UnitID ''q'' [10]) = Inr 10
   \<and> tk_to_i (UnitID ''q'' [6, 1]) = Inl (AssertionError (Assert_index_len [6, 1]))
   \<and> (\<exists>m. decode_map [GridQubit 4 1, GridQubit 4 2, GridQubit 5 2]
              [(UnitID ''q'' [10], UnitID ''node'' [2]), (UnitID ''q'' [11], UnitID ''node'' [0])]
            = Inr m)"
  using tk_to_i_decode_map[of "UnitID ''q'' [10]"
      "[(UnitID ''q'' [10], UnitID ''node'' [2]), (UnitID ''q'' [11], UnitID ''node'' [0])]"
      "[GridQubit 4 1, GridQubit 4 2, GridQubit 5 2]"]
    tk_to_i_decode_map[of "UnitID ''q'' [6, 1]" "[]" "[]::GridQubit list"]
  by (simp add: len_def)

text \<open>
  Claim C8 as stated fails: with one-component indices throughout, a device node whose
  index is outside the index table makes the decoding raise \<open>IndexError\<close>.
\<close>

theorem decode_map_counterexample:
  "len (index (UnitID ''q'' [10])) = 1 \<and> len (index (UnitID ''node'' [7])) = 1
   \<and> decode_map [GridQubit 4 1, GridQubit 4 2, GridQubit 5 2]
        [(UnitID ''q'' [10], UnitID ''node'' [7])] = Inl IndexError"
  by (simp add: decode_map_def decode_item_def tk_to_i_def list_getitem_def len_def)

section \<open>The final permutation\<close>

lemma list_comp_map:
  "(\<And>x. x \<in> set xs \<Longrightarrow> f x = Inr (g x)) \<Longrightarrow> list_comp f xs = Inr (map g xs)"
  by (induction xs) simp_all

lemma list_comp_of_map: "list_comp f (map g xs) = list_comp (\<lambda>x. f (g x)) xs"
  by (induction xs) (simp_all split: sum.splits)

lemma dict_comp_distinct:
  assumes "\<And>x. x \<in> set xs \<Longrightarrow> f x = Inr (k x, v x)" "distinct (map k xs)"
  shows "\<exists>m. dict_comp f xs d = Inr m \<and> (\<forall>x\<in>set xs. m (k x) = Some (v x))
           \<and> (\<forall>y. y \<notin> k ` set xs \<longrightarrow> m y = d y)"
  using assms
proof (induction xs arbitrary: d)
  case Nil
  then show ?case by simp
next
  case (Cons x xs)
  have fx: "f x = Inr (k x, v x)" using Cons.prems(1) by simp
  have "\<exists>m. dict_comp f xs (d(k x \<mapsto> v x)) = Inr m \<and> (\<forall>y\<in>set xs. m (k y) = Some (v y))
           \<and> (\<forall>y. y \<notin> k ` set xs \<longrightarrow> m y = (d(k x \<mapsto> v x)) y)"
    using Cons.prems by (intro Cons.IH) simp_all
  then obtain m where m: "dict_comp f xs (d(k x \<mapsto> v x)) = Inr m"
    "\<forall>y\<in>set xs. m (k y) = Some (v y)" "\<forall>y. y \<notin> k ` set xs \<longrightarrow> m y = (d(k x \<mapsto> v x)) y"
    by blast
  have "k x \<notin> k ` set xs" using Cons.prems(2) by simp
  with m(3) have "m (k x) = Some (v x)" by simp
  moreover have "\<forall>y. y \<notin> k ` set (x # xs) \<longrightarrow> m y = d y" using m(3) by simp
  ultimately show ?case using m(1,2) fx by simp
qed

lemma list_index_nth:
  "distinct xs \<Longrightarrow> n < length xs \<Longrightarrow> list_index xs (xs ! n) = Inr (int n)"
proof (induction xs arbitrary: n)
  case Nil
  then show ?case by simp
next
  case (Cons x xs)
  show ?case
  proof (cases n)
    case 0
    then show ?thesis by simp
  next
    case (Suc m)
    with Cons.prems have "xs ! m \<in> set xs" "x \<notin> set xs" by simp_all
    then have "x \<noteq> xs ! m" by blast
    moreover have "list_index xs (xs ! m) = Inr (int m)" using Cons Suc by simp
    ultimately show ?thesis using Suc by simp
  qed
qed

lemma circuit_qubits_props:
  "distinct circuit_qubits" "length circuit_qubits = 10"
  by (simp_all add: circuit_qubits_def distinct_map inj_on_def)

text \<open>The permutation for any distinct list of keys.\<close>

lemma permutation_general:
  fixes im fm :: "'k \<rightharpoonup> 'q" and cqs :: "'k list"
  assumes dist: "distinct cqs"
    and dom_i: "set cqs \<subseteq> dom im" and dom_f: "set cqs \<subseteq> dom fm"
    and inj_i: "inj_on im (set cqs)" and inj_f: "inj_on fm (set cqs)"
    and img: "im ` set cqs = fm ` set cqs"
    and f2i: "\<forall>cq\<in>set cqs. f2i (the (fm cq)) = Some (the (im cq))"
  shows "\<exists>perm. list_comp (\<lambda>q. case dict_getitem f2i q of Inl e \<Rightarrow> Inl e
                                | Inr t \<Rightarrow> list_index (map (\<lambda>cq. the (im cq)) cqs) t)
                  (map (\<lambda>cq. the (im cq)) cqs) = Inr perm
           \<and> length perm = length cqs \<and> distinct perm \<and> set perm = {0..<int (length cqs)}"
proof -
  let ?a = "\<lambda>cq. the (im cq)" and ?b = "\<lambda>cq. the (fm cq)"
  let ?iq = "map ?a cqs"
  have a_inj: "inj_on ?a (set cqs)"
  proof (rule inj_onI)
    fix x y assume xy: "x \<in> set cqs" "y \<in> set cqs" "the (im x) = the (im y)"
    from xy(1,2) dom_i obtain u w where "im x = Some u" "im y = Some w" by (meson domD subsetD)
    with xy(3) have "im x = im y" by simp
    with inj_i xy show "x = y" by (auto dest: inj_onD)
  qed
  have b_inj: "inj_on ?b (set cqs)"
  proof (rule inj_onI)
    fix x y assume xy: "x \<in> set cqs" "y \<in> set cqs" "the (fm x) = the (fm y)"
    from xy(1,2) dom_f obtain u w where "fm x = Some u" "fm y = Some w" by (meson domD subsetD)
    with xy(3) have "fm x = fm y" by simp
    with inj_f xy show "x = y" by (auto dest: inj_onD)
  qed
  have ab: "?a ` set cqs = ?b ` set cqs"
  proof -
    have "?a ` set cqs = the ` (im ` set cqs)" by (simp add: image_image)
    also have "\<dots> = the ` (fm ` set cqs)" by (simp only: img)
    also have "\<dots> = ?b ` set cqs" by (simp add: image_image)
    finally show ?thesis .
  qed
  have dist_iq: "distinct ?iq" using dist a_inj by (simp add: distinct_map)
  define s where "s cq = inv_into (set cqs) ?b (?a cq)" for cq
  have s_in: "s cq \<in> set cqs" and s_b: "?b (s cq) = ?a cq" if "cq \<in> set cqs" for cq
  proof -
    from that ab have mem: "?a cq \<in> ?b ` set cqs" by blast
    then show "s cq \<in> set cqs" unfolding s_def by (rule inv_into_into)
    from mem show "?b (s cq) = ?a cq" unfolding s_def by (rule f_inv_into_f)
  qed
  have s_inj: "inj_on s (set cqs)"
  proof (rule inj_onI)
    fix x y assume xy: "x \<in> set cqs" "y \<in> set cqs" "s x = s y"
    then have "?a x = ?a y" using s_b[of x] s_b[of y] by simp
    with a_inj xy show "x = y" by (auto dest: inj_onD)
  qed
  define pos where "pos cq = (THE n. n < length cqs \<and> cqs ! n = cq)" for cq
  have pos: "pos cq < length cqs \<and> cqs ! pos cq = cq" if "cq \<in> set cqs" for cq
  proof -
    from that obtain n where n: "n < length cqs" "cqs ! n = cq" by (auto simp: in_set_conv_nth)
    have "\<exists>!n. n < length cqs \<and> cqs ! n = cq"
    proof (rule ex1I[of _ n])
      show "n < length cqs \<and> cqs ! n = cq" using n by simp
    next
      fix m assume "m < length cqs \<and> cqs ! m = cq"
      with n dist show "m = n" by (auto simp: nth_eq_iff_index_eq)
    qed
    then show ?thesis unfolding pos_def by (rule theI')
  qed
  have pos_inj: "inj_on pos (set cqs)"
  proof (rule inj_onI)
    fix x y assume "x \<in> set cqs" "y \<in> set cqs" "pos x = pos y"
    then show "x = y" using pos[of x] pos[of y] by metis
  qed
  have step: "(case dict_getitem f2i (?a cq) of Inl e \<Rightarrow> Inl e | Inr t \<Rightarrow> list_index ?iq t)
                = Inr (int (pos (s cq)))" if "cq \<in> set cqs" for cq
  proof -
    have "f2i (?a cq) = Some (?a (s cq))"
      using f2i s_in[OF that] s_b[OF that] by metis
    moreover have "list_index ?iq (?a (s cq)) = Inr (int (pos (s cq)))"
    proof -
      from pos[OF s_in[OF that]] have p: "pos (s cq) < length ?iq" "?iq ! pos (s cq) = ?a (s cq)"
        by simp_all
      from list_index_nth[OF dist_iq p(1)] p(2) show ?thesis by simp
    qed
    ultimately show ?thesis by (simp add: dict_getitem_def)
  qed
  let ?f = "\<lambda>q. case dict_getitem f2i q of Inl e \<Rightarrow> Inl e | Inr t \<Rightarrow> list_index ?iq t"
  let ?perm = "map (\<lambda>cq. int (pos (s cq))) cqs"
  have "list_comp (\<lambda>cq. ?f (?a cq)) cqs = Inr ?perm"
    by (rule list_comp_map) (rule step)
  moreover have "list_comp ?f (map ?a cqs) = list_comp (\<lambda>cq. ?f (?a cq)) cqs"
    by (rule list_comp_of_map)
  ultimately have res: "list_comp ?f ?iq = Inr ?perm" by simp
  have inj_all: "inj_on (\<lambda>cq. int (pos (s cq))) (set cqs)"
  proof (rule inj_onI)
    fix x y assume xy: "x \<in> set cqs" "y \<in> set cqs" "int (pos (s x)) = int (pos (s y))"
    then have "pos (s x) = pos (s y)" by simp
    with pos_inj s_in[OF xy(1)] s_in[OF xy(2)] have "s x = s y" by (auto dest: inj_onD)
    with s_inj xy show "x = y" by (auto dest: inj_onD)
  qed
  have dperm: "distinct ?perm" using dist inj_all by (simp add: distinct_map)
  have sub: "set ?perm \<subseteq> {0..<int (length cqs)}"
    using pos s_in by auto
  have "card (set ?perm) = length ?perm" using dperm by (rule distinct_card)
  then have "card (set ?perm) = length cqs" by (simp only: length_map)
  moreover have "card {0..<int (length cqs)} = length cqs" by simp
  ultimately have "set ?perm = {0..<int (length cqs)}"
    using sub by (intro card_subset_eq) simp_all
  with res dperm show ?thesis by (intro exI[of _ ?perm]) simp
qed


lemma permute_gate_total:
  "permute_gate qs perm
     = Inr (Operation (LinearPermutationGate (len qs) (zip (range_py (len perm)) perm)) qs)"
proof -
  let ?g = "\<lambda>i. (i, perm ! nat i)"
  have "list_comp (\<lambda>i. case list_getitem perm i of Inl e \<Rightarrow> Inl e | Inr p \<Rightarrow> Inr (i, p))
          (range_py (len perm)) = Inr (map ?g (range_py (len perm)))"
    by (rule list_comp_map) (auto simp: range_py_def len_def list_getitem_def)
  moreover have "map ?g (range_py (len perm)) = zip (range_py (len perm)) perm"
    by (rule nth_equalityI) (simp_all add: range_py_def len_def)
  ultimately show ?thesis by (simp add: permute_gate_def)
qed

text \<open>
  Claim C9. When \<open>initial_map\<close> and \<open>final_map\<close> are defined and injective on the ten
  circuit qubits and map them onto the same set of device qubits, the last cell computes
  \<open>final_to_initial_map\<close>, \<open>initial_qubits\<close> and \<open>final_permutation\<close> without an exception,
  \<open>final_permutation\<close> has length ten and holds each index \<open>0 .. 9\<close> exactly once, and
  \<open>permute_gate\<close> builds a gate on ten qubits whose dict sends \<open>i\<close> to
  \<open>final_permutation[i]\<close> for \<open>i = 0 .. 9\<close>.
\<close>

theorem final_permutation_is_permutation:
  fixes initial_map final_map :: "LineQubit \<rightharpoonup> 'q"
  assumes "set circuit_qubits \<subseteq> dom initial_map" and "set circuit_qubits \<subseteq> dom final_map"
    and "inj_on initial_map (set circuit_qubits)" and "inj_on final_map (set circuit_qubits)"
    and "initial_map ` set circuit_qubits = final_map ` set circuit_qubits"
  shows "\<exists>f2i iq perm d.
           final_to_initial_map initial_map final_map = Inr f2i
         \<and> initial_qubits initial_map = Inr iq
         \<and> final_permutation f2i iq = Inr perm
         \<and> length perm = 10 \<and> distinct perm \<and> set perm = {0..<10}
         \<and> permute_gate iq perm = Inr (Operation (LinearPermutationGate 10 d) iq)
         \<and> map fst d = range_py 10 \<and> map snd d = perm"
proof -
  let ?a = "\<lambda>cq. the (initial_map cq)" and ?b = "\<lambda>cq. the (final_map cq)"
  let ?iq = "map ?a circuit_qubits"
  have get_i: "dict_getitem initial_map cq = Inr (?a cq)" if "cq \<in> set circuit_qubits" for cq
    using that assms(1) by (auto simp: dict_getitem_def)
  have get_f: "dict_getitem final_map cq = Inr (?b cq)" if "cq \<in> set circuit_qubits" for cq
    using that assms(2) by (auto simp: dict_getitem_def)
  have iq: "initial_qubits initial_map = Inr ?iq"
    unfolding initial_qubits_def by (rule list_comp_map) (rule get_i)
  have b_inj: "inj_on ?b (set circuit_qubits)"
  proof (rule inj_onI)
    fix x y assume xy: "x \<in> set circuit_qubits" "y \<in> set circuit_qubits"
      "the (final_map x) = the (final_map y)"
    from xy(1,2) assms(2) obtain u w where "final_map x = Some u" "final_map y = Some w"
      by (meson domD subsetD)
    with xy(3) have "final_map x = final_map y" by simp
    with assms(4) xy show "x = y" by (auto dest: inj_onD)
  qed
  have item: "final_to_initial_item initial_map final_map cq = Inr (?b cq, ?a cq)"
    if "cq \<in> set circuit_qubits" for cq
    using get_i[OF that] get_f[OF that] by (simp add: final_to_initial_item_def)
  have "distinct (map ?b circuit_qubits)"
    using circuit_qubits_props(1) b_inj by (simp add: distinct_map)
  with item obtain f2i where f2i:
    "dict_comp (final_to_initial_item initial_map final_map) circuit_qubits Map.empty = Inr f2i"
    "\<forall>cq\<in>set circuit_qubits. f2i (?b cq) = Some (?a cq)"
    using dict_comp_distinct[of circuit_qubits "final_to_initial_item initial_map final_map" ?b ?a Map.empty]
    by blast
  from permutation_general[OF circuit_qubits_props(1) assms f2i(2)]
  obtain perm where perm:
    "final_permutation f2i ?iq = Inr perm" "length perm = length circuit_qubits"
    "distinct perm" "set perm = {0..<int (length circuit_qubits)}"
    unfolding final_permutation_def by blast
  let ?d = "zip (range_py (len perm)) perm"
  have len: "len perm = 10" "len ?iq = 10"
    using perm(2) by (simp_all add: len_def circuit_qubits_props(2))
  have "permute_gate ?iq perm = Inr (Operation (LinearPermutationGate 10 ?d) ?iq)"
    using permute_gate_total[of ?iq perm] len by simp
  moreover have "map fst ?d = range_py 10" "map snd ?d = perm"
    using len(1) perm(2) by (simp_all add: range_py_def len_def circuit_qubits_props(2))
  ultimately show ?thesis
    using f2i(1) iq perm by (auto simp: final_to_initial_map_def circuit_qubits_props(2))
qed

lemma circuit_qubits_list:
  "circuit_qubits = [LineQubit 10, LineQubit 11, LineQubit 12, LineQubit 13, LineQubit 14,
     LineQubit 15, LineQubit 16, LineQubit 17, LineQubit 18, LineQubit 19]"
  by code_simp

text \<open>The theorem at a placement on row 4 of the grid, where routing has exchanged the first two
  qubits and rotated the last three.\<close>

theorem final_permutation_is_permutation_witness:
  "set circuit_qubits \<subseteq> dom (map_of (zip circuit_qubits (map (GridQubit 4) [0, 1, 2, 3, 4, 5, 6, 7, 8, 9])))
   \<and> set circuit_qubits \<subseteq> dom (map_of (zip circuit_qubits (map (GridQubit 4) [1, 0, 2, 3, 4, 5, 6, 9, 7, 8])))
   \<and> inj_on (map_of (zip circuit_qubits (map (GridQubit 4) [0, 1, 2, 3, 4, 5, 6, 7, 8, 9]))) (set circuit_qubits)
   \<and> inj_on (map_of (zip circuit_qubits (map (GridQubit 4) [1, 0, 2, 3, 4, 5, 6, 9, 7, 8]))) (set circuit_qubits)
   \<and> map_of (zip circuit_qubits (map (GridQubit 4) [0, 1, 2, 3, 4, 5, 6, 7, 8, 9])) ` set circuit_qubits
       = map_of (zip circuit_qubits (map (GridQubit 4) [1, 0, 2, 3, 4, 5, 6, 9, 7, 8])) ` set circuit_qubits
   \<and> (\<exists>f2i iq perm d.
           final_to_initial_map (map_of (zip circuit_qubits (map (GridQubit 4) [0, 1, 2, 3, 4, 5, 6, 7, 8, 9])))
             (map_of (zip circuit_qubits (map (GridQubit 4) [1, 0, 2, 3, 4, 5, 6, 9, 7, 8]))) = Inr f2i
         \<and> initial_qubits (map_of (zip circuit_qubits (map (GridQubit 4) [0, 1, 2, 3, 4, 5, 6, 7, 8, 9]))) = Inr iq
         \<and> final_permutation f2i iq = Inr perm
         \<and> length perm = 10 \<and> distinct perm \<and> set perm = {0..<10}
         \<and> permute_gate iq perm = Inr (Operation (LinearPermutationGate 10 d) iq)
         \<and> map fst d = range_py 10 \<and> map snd d = perm)"
proof -
  let ?im = "map_of (zip circuit_qubits (map (GridQubit 4) [0, 1, 2, 3, 4, 5, 6, 7, 8, 9]))"
  let ?fm = "map_of (zip circuit_qubits (map (GridQubit 4) [1, 0, 2, 3, 4, 5, 6, 9, 7, 8]))"
  have h1: "set circuit_qubits \<subseteq> dom ?im" by (simp add: circuit_qubits_list)
  have h2: "set circuit_qubits \<subseteq> dom ?fm" by (simp add: circuit_qubits_list)
  have h3: "inj_on ?im (set circuit_qubits)" by (simp add: circuit_qubits_list)
  have h4: "inj_on ?fm (set circuit_qubits)" by (simp add: circuit_qubits_list)
  have h5: "?im ` set circuit_qubits = ?fm ` set circuit_qubits"
    by (simp add: circuit_qubits_list) blast
  from final_permutation_is_permutation[OF h1 h2 h3 h4 h5] h1 h2 h3 h4 h5 show ?thesis by blast
qed

section \<open>Running the cells\<close>

lemma run_cells_Cons_Inr:
  "run_cells ext (c # cs) g = (started, Inr g') \<longleftrightarrow>
     (\<exists>g1 st. exec_cell ext c g = Inr g1 \<and> run_cells ext cs g1 = (st, Inr g') \<and> started = c # st)"
  by (auto split: sum.splits prod.splits)

lemma run_cells_Cons_Inl:
  "run_cells ext (c # cs) g = (started, Inl e) \<longleftrightarrow>
     (exec_cell ext c g = Inl e \<and> started = [c])
     \<or> (\<exists>g1 st. exec_cell ext c g = Inr g1 \<and> run_cells ext cs g1 = (st, Inl e) \<and> started = c # st)"
  by (auto split: sum.splits prod.splits)

lemma run_cells_Nil_iff:
  "run_cells ext [] g = (started, r) \<longleftrightarrow> started = [] \<and> r = Inr g"
  by auto

lemma run_cells_append_error:
  "run_cells ext pre g0 = (started, Inr g) \<Longrightarrow> exec_cell ext c g = Inl e \<Longrightarrow>
   run_cells ext (pre @ c # post) g0 = (pre @ [c], Inl e)"
proof (induction pre arbitrary: g0 started)
  case Nil
  then show ?case by simp
next
  case (Cons p pre)
  from Cons.prems(1) obtain g1 st where g1: "exec_cell ext p g0 = Inr g1"
    "run_cells ext pre g1 = (st, Inr g)"
    unfolding run_cells_Cons_Inr by blast
  from Cons.IH[OF g1(2) Cons.prems(2)] g1(1) show ?case by simp
qed

lemma cell_index_mapping_eq:
  "cell_index_mapping ext g =
     Inr (g\<lparr>g_index_to_qubit := index_to_qubit (device_qubit_set ext),
            g_qubit_to_index := qubit_to_index (index_to_qubit (device_qubit_set ext))\<rparr>)"
  by (simp add: cell_index_mapping_def Let_def)



lemma apply_passes_Inl: "apply_pass ext (passes dev) u = Inl e \<Longrightarrow> e = RuntimeError"
  by (auto simp: passes_def split: option.splits sum.splits)

lemma cell_passes_Inr:
  assumes "cell_passes ext g = Inr g'"
  obtains u where
    "apply_pass ext (passes (g_tk_device g))
       (CompilationUnit_init (g_tk_circuit g) [ConnectivityPredicate (g_tk_device g)]) = Inr u"
    "check_all_predicates ext u" "g' = g\<lparr>g_unit := u, g_valid := True\<rparr>"
  using assms by (auto simp: cell_passes_def Let_def split: if_splits sum.splits)

lemma cell_initial_map_Inr:
  assumes "cell_initial_map ext g = Inr g'"
  obtains m where "decode_map (g_index_to_qubit g) (unit_initial_map (g_unit g)) = Inr m"
    "g' = g\<lparr>g_initial_map := m\<rparr>"
  using assms by (auto simp: cell_initial_map_def split: sum.splits)

lemma cell_final_map_Inr:
  assumes "cell_final_map ext g = Inr g'"
  obtains m where "decode_map (g_index_to_qubit g) (unit_final_map (g_unit g)) = Inr m"
    "g' = g\<lparr>g_final_map := m\<rparr>"
  using assms by (auto simp: cell_final_map_def split: sum.splits)

lemma cell_routed_circuit_Inr:
  assumes "cell_routed_circuit ext g = Inr g'"
  obtains c where
    "transform_qubits (\<lambda>q. list_getitem (g_index_to_qubit g) (line_x q))
       (tk_to_cirq ext (unit_circuit (g_unit g))) = Inr c"
    "g' = g\<lparr>g_routed_circuit := c\<rparr>"
  using assms by (auto simp: cell_routed_circuit_def split: sum.splits)

lemma cell_adjacency_Inr:
  assumes "cell_adjacency ext g = Inr g'"
  shows "assert_adjacent (g_routed_circuit g) = Inr ()" "g' = g"
  using assms by (auto simp: cell_adjacency_def split: sum.splits)

lemma cell_unitary_Inr:
  assumes "cell_unitary ext g = Inr g'"
  obtains f2i iq perm pg where
    "final_to_initial_map (g_initial_map g) (g_final_map g) = Inr f2i"
    "initial_qubits (g_initial_map g) = Inr iq"
    "final_permutation f2i iq = Inr perm"
    "permute_gate iq perm = Inr pg"
    "allclose_up_to_global_phase ext (problem_circuit ext) circuit_qubits (g_routed_circuit g @ [pg]) iq"
    "g' = g\<lparr>g_final_to_initial_map := f2i, g_initial_qubits := iq,
            g_final_permutation := perm, g_rcircuit_with_perm := g_routed_circuit g @ [pg]\<rparr>"
  using assms by (auto simp: cell_unitary_def Let_def split: sum.splits if_splits)

lemma list_comp_Inr_set:
  "list_comp f xs = Inr ys \<Longrightarrow> y \<in> set ys \<Longrightarrow> \<exists>x\<in>set xs. f x = Inr y"
proof (induction xs arbitrary: ys)
  case Nil
  then show ?case by simp
next
  case (Cons x xs)
  from Cons.prems(1) obtain z zs where z: "f x = Inr z" "list_comp f xs = Inr zs" "ys = z # zs"
    by (auto split: sum.splits)
  show ?case
  proof (cases "y = z")
    case True
    with z(1) show ?thesis by simp
  next
    case False
    with z(3) Cons.prems(2) have "y \<in> set zs" by simp
    with Cons.IH[OF z(2)] show ?thesis by auto
  qed
qed

lemma list_comp_error:
  "list_comp f xs = Inl e \<Longrightarrow> \<exists>x\<in>set xs. f x = Inl e"
  by (induction xs) (auto split: sum.splits)

lemma list_getitem_mem: "list_getitem xs i = Inr y \<Longrightarrow> y \<in> set xs"
  by (auto simp: list_getitem_def len_def split: if_splits)

lemma transform_qubits_mem:
  assumes "transform_qubits f c0 = Inr c" "oper \<in> set c" "q \<in> set (qubits oper)"
  shows "\<exists>p. f p = Inr q"
proof -
  from assms(1,2) obtain o0 where o0: "o0 \<in> set c0"
    "(case list_comp f (qubits o0) of Inl e \<Rightarrow> Inl e | Inr qs \<Rightarrow> Inr (Operation (gate o0) qs)) = Inr oper"
    unfolding transform_qubits_def by (blast dest: list_comp_Inr_set)
  then obtain qs where qs: "list_comp f (qubits o0) = Inr qs" "oper = Operation (gate o0) qs"
    by (auto split: sum.splits)
  with assms(3) have "q \<in> set qs" by simp
  with qs(1) show ?thesis by (blast dest: list_comp_Inr_set)
qed


lemma cell_tket_device_Inl: "cell_tket_device ext g = Inl e \<Longrightarrow> e = KeyError"
proof -
  assume "cell_tket_device ext g = Inl e"
  then have "qubit_index_edges ext (g_qubit_to_index g) = Inl e"
    by (auto simp: cell_tket_device_def device_to_tket_device_def Let_def split: sum.splits)
  then obtain edge where "(case edge of (n1, n2) \<Rightarrow>
                  (case dict_getitem (g_qubit_to_index g) n1 of
                     Inl e \<Rightarrow> Inl e
                   | Inr i1 \<Rightarrow>
                       (case dict_getitem (g_qubit_to_index g) n2 of
                          Inl e \<Rightarrow> Inl e
                        | Inr i2 \<Rightarrow> Inr (i1, i2)))) = Inl e"
    unfolding qubit_index_edges_def by (blast dest: list_comp_error)
  then show "e = KeyError"
    by (auto simp: dict_getitem_def split: prod.splits sum.splits option.splits)
qed

lemma decode_item_Inl:
  "decode_item itq item = Inl e \<Longrightarrow> e = IndexError \<or> (\<exists>i. e = AssertionError (Assert_index_len i))"
  by (auto simp: decode_item_def tk_to_i_def list_getitem_def Let_def
      split: prod.splits sum.splits if_splits)

lemma decode_map_Inl:
  "decode_map itq items = Inl e \<Longrightarrow> e = IndexError \<or> (\<exists>i. e = AssertionError (Assert_index_len i))"
  unfolding decode_map_def by (blast dest: dict_comp_error decode_item_Inl)

lemma dict_comp_Inr_all:
  "dict_comp f xs d = Inr m \<Longrightarrow> x \<in> set xs \<Longrightarrow> \<exists>kv. f x = Inr kv"
proof (induction xs arbitrary: d)
  case Nil
  then show ?case by simp
next
  case (Cons y ys)
  show ?case
  proof (cases "f y")
    case (Inl e)
    with Cons.prems(1) show ?thesis by simp
  next
    case (Inr kv)
    obtain k v where kv: "kv = (k, v)" by (cases kv)
    with Inr Cons.prems(1) have "dict_comp f ys (d(k \<mapsto> v)) = Inr m" by simp
    from Cons.IH[OF this] Cons.prems(2) Inr show ?thesis by auto
  qed
qed

lemma decode_item_Inr_single:
  "decode_item itq (n1, n2) = Inr kv \<Longrightarrow> len (index n1) = 1 \<and> len (index n2) = 1"
  by (auto simp: decode_item_def tk_to_i_def Let_def split: sum.splits if_splits)

lemma decode_map_Inr_single:
  assumes "decode_map itq items = Inr m" "(n1, n2) \<in> set items"
  shows "len (index n1) = 1 \<and> len (index n2) = 1"
proof -
  from assms obtain kv where "decode_item itq (n1, n2) = Inr kv"
    unfolding decode_map_def by (blast dest: dict_comp_Inr_all)
  then show ?thesis by (rule decode_item_Inr_single)
qed

lemma cell_initial_map_Inl:
  "cell_initial_map ext g = Inl e \<Longrightarrow> e = IndexError \<or> (\<exists>i. e = AssertionError (Assert_index_len i))"
  by (auto simp: cell_initial_map_def split: sum.splits dest: decode_map_Inl)

lemma cell_final_map_Inl:
  "cell_final_map ext g = Inl e \<Longrightarrow> e = IndexError \<or> (\<exists>i. e = AssertionError (Assert_index_len i))"
  by (auto simp: cell_final_map_def split: sum.splits dest: decode_map_Inl)

lemma list_getitem_Inl: "list_getitem xs i = Inl e \<Longrightarrow> e = IndexError"
  by (auto simp: list_getitem_def split: if_splits)

lemma cell_routed_circuit_Inl: "cell_routed_circuit ext g = Inl e \<Longrightarrow> e = IndexError"
proof -
  assume "cell_routed_circuit ext g = Inl e"
  then have "transform_qubits (\<lambda>q. list_getitem (g_index_to_qubit g) (line_x q))
             (tk_to_cirq ext (unit_circuit (g_unit g))) = Inl e"
    by (auto simp: cell_routed_circuit_def split: sum.splits)
  then obtain oper where
    "(case list_comp (\<lambda>q. list_getitem (g_index_to_qubit g) (line_x q)) (qubits oper) of
        Inl e \<Rightarrow> Inl e | Inr qs \<Rightarrow> Inr (Operation (gate oper) qs)) = Inl e"
    unfolding transform_qubits_def by (blast dest: list_comp_error)
  then have "list_comp (\<lambda>q. list_getitem (g_index_to_qubit g) (line_x q)) (qubits oper) = Inl e"
    by (auto split: sum.splits)
  then show "e = IndexError" by (blast dest: list_comp_error list_getitem_Inl)
qed

lemma assert_adjacent_Inl:
  "assert_adjacent c = Inl e \<Longrightarrow> e = AssertionError Assert_adjacent \<or> e = ValueError"
  by (induction c) (auto split: if_splits list.splits)

lemma cell_adjacency_Inl:
  "cell_adjacency ext g = Inl e \<Longrightarrow> e = AssertionError Assert_adjacent \<or> e = ValueError"
  by (auto simp: cell_adjacency_def split: sum.splits dest: assert_adjacent_Inl)

lemma dict_getitem_Inl: "dict_getitem d k = Inl e \<Longrightarrow> e = KeyError"
  by (auto simp: dict_getitem_def split: option.splits)

lemma list_index_Inl: "list_index xs y = Inl e \<Longrightarrow> e = ValueError"
  by (induction xs) (auto split: if_splits sum.splits)

lemma final_to_initial_map_Inl: "final_to_initial_map im fm = Inl e \<Longrightarrow> e = KeyError"
proof -
  assume "final_to_initial_map im fm = Inl e"
  then obtain cq where "final_to_initial_item im fm cq = Inl e"
    unfolding final_to_initial_map_def by (blast dest: dict_comp_error)
  then show ?thesis
    by (auto simp: final_to_initial_item_def split: sum.splits dest: dict_getitem_Inl)
qed

lemma initial_qubits_Inl: "initial_qubits im = Inl e \<Longrightarrow> e = KeyError"
  unfolding initial_qubits_def by (blast dest: list_comp_error dict_getitem_Inl)

lemma final_permutation_Inl: "final_permutation f2i iq = Inl e \<Longrightarrow> e = KeyError \<or> e = ValueError"
proof -
  assume "final_permutation f2i iq = Inl e"
  then obtain q where "(case dict_getitem f2i q of Inl e \<Rightarrow> Inl e | Inr t \<Rightarrow> list_index iq t) = Inl e"
    unfolding final_permutation_def by (blast dest: list_comp_error)
  then show ?thesis
    by (auto split: sum.splits dest: dict_getitem_Inl list_index_Inl)
qed

lemma cell_unitary_Inl:
  "cell_unitary ext g = Inl e \<Longrightarrow>
     e = KeyError \<or> e = ValueError \<or> e = AssertionError Assert_allclose"
  by (auto simp: cell_unitary_def permute_gate_total Let_def split: sum.splits if_splits
      dest: final_to_initial_map_Inl initial_qubits_Inl final_permutation_Inl)

lemma notebook_completes:
  assumes "notebook ext = (started, Inr g)"
  shows "check_all_predicates ext (g_unit g)"
    and "\<forall>(n1, n2)\<in>set (unit_initial_map (g_unit g)) \<union> set (unit_final_map (g_unit g)).
           len (index n1) = 1 \<and> len (index n2) = 1"
    and "assert_adjacent (g_routed_circuit g) = Inr ()"
    and "allclose_up_to_global_phase ext (problem_circuit ext) circuit_qubits
           (g_rcircuit_with_perm g) (g_initial_qubits g)"
proof -
  from assms obtain g1 g2 g3 g4 g5 g6 g7 where
    c1: "cell_index_mapping ext no_globals = Inr g1" and
    c2: "cell_tket_device ext g1 = Inr g2" and
    c3: "cell_passes ext g2 = Inr g3" and
    c4: "cell_initial_map ext g3 = Inr g4" and
    c5: "cell_final_map ext g4 = Inr g5" and
    c6: "cell_routed_circuit ext g5 = Inr g6" and
    c7: "cell_adjacency ext g6 = Inr g7" and
    c8: "cell_unitary ext g7 = Inr g"
    unfolding notebook_def notebook_cells_def run_cells_Cons_Inr run_cells_Nil_iff exec_cell.simps
    by auto
  from c3 obtain u where u: "check_all_predicates ext u" "g3 = g2\<lparr>g_unit := u, g_valid := True\<rparr>"
    by (rule cell_passes_Inr)
  from c4 obtain im where im: "decode_map (g_index_to_qubit g3) (unit_initial_map (g_unit g3)) = Inr im"
    "g4 = g3\<lparr>g_initial_map := im\<rparr>"
    by (rule cell_initial_map_Inr)
  from c5 obtain fm where fm: "decode_map (g_index_to_qubit g4) (unit_final_map (g_unit g4)) = Inr fm"
    "g5 = g4\<lparr>g_final_map := fm\<rparr>"
    by (rule cell_final_map_Inr)
  from c6 obtain c where c: "g6 = g5\<lparr>g_routed_circuit := c\<rparr>"
    by (rule cell_routed_circuit_Inr)
  from c7 have a: "assert_adjacent (g_routed_circuit g6) = Inr ()" "g7 = g6"
    by (rule cell_adjacency_Inr)+
  from c8 obtain f2i iq perm pg where p:
    "allclose_up_to_global_phase ext (problem_circuit ext) circuit_qubits (g_routed_circuit g7 @ [pg]) iq"
    "g = g7\<lparr>g_final_to_initial_map := f2i, g_initial_qubits := iq,
            g_final_permutation := perm, g_rcircuit_with_perm := g_routed_circuit g7 @ [pg]\<rparr>"
    by (rule cell_unitary_Inr)
  have gu: "g_unit g = u" using u(2) im(2) fm(2) c a(2) p(2) by simp
  show "check_all_predicates ext (g_unit g)" using gu u(1) by simp
  have u3: "g_unit g3 = u" "g_unit g4 = u" using u(2) im(2) by simp_all
  show "\<forall>(n1, n2)\<in>set (unit_initial_map (g_unit g)) \<union> set (unit_final_map (g_unit g)).
           len (index n1) = 1 \<and> len (index n2) = 1"
    using decode_map_Inr_single[OF im(1)] decode_map_Inr_single[OF fm(1)] unfolding gu u3
    by auto
  show "assert_adjacent (g_routed_circuit g) = Inr ()" using a p(2) by simp
  show "allclose_up_to_global_phase ext (problem_circuit ext) circuit_qubits
           (g_rcircuit_with_perm g) (g_initial_qubits g)" using p by simp
qed

lemma cell_passes_Inl:
  "cell_passes ext g = Inl e \<Longrightarrow> e = AssertionError Assert_valid \<or> e = RuntimeError"
  by (auto simp: cell_passes_def Let_def split: if_splits sum.splits dest: apply_passes_Inl)

lemma notebook_assertion_sites:
  assumes "notebook ext = (started, Inl (AssertionError a))"
  shows "(a = Assert_valid \<and> started = [Cell_index_mapping, Cell_tket_device, Cell_passes])
       \<or> ((\<exists>i. a = Assert_index_len i)
            \<and> (started = [Cell_index_mapping, Cell_tket_device, Cell_passes, Cell_initial_map]
               \<or> started = [Cell_index_mapping, Cell_tket_device, Cell_passes, Cell_initial_map,
                             Cell_final_map]))
       \<or> (a = Assert_adjacent
            \<and> started = [Cell_index_mapping, Cell_tket_device, Cell_passes, Cell_initial_map,
                          Cell_final_map, Cell_routed_circuit, Cell_adjacency])
       \<or> (a = Assert_allclose \<and> started = notebook_cells)"
  using assms
  unfolding notebook_def notebook_cells_def run_cells_Cons_Inl run_cells_Nil_iff exec_cell.simps
  by (auto simp: cell_index_mapping_eq
      dest: cell_tket_device_Inl cell_initial_map_Inl cell_final_map_Inl cell_routed_circuit_Inl
        cell_adjacency_Inl cell_unitary_Inl
        cell_passes_Inl)

lemma run_cells_Inl_first:
  "run_cells ext cs g0 = (started, Inl e) \<Longrightarrow>
     \<exists>pre c post g st. cs = pre @ c # post \<and> started = pre @ [c]
        \<and> run_cells ext pre g0 = (st, Inr g) \<and> exec_cell ext c g = Inl e"
proof (induction cs arbitrary: g0 started)
  case Nil
  then show ?case by simp
next
  case (Cons c cs)
  show ?case
  proof (cases "exec_cell ext c g0")
    case (Inl e')
    with Cons.prems have "e' = e" "started = [c]" by simp_all
    with Inl have "c # cs = [] @ c # cs \<and> started = [] @ [c]
        \<and> run_cells ext [] g0 = ([], Inr g0) \<and> exec_cell ext c g0 = Inl e" by simp
    then show ?thesis by blast
  next
    case (Inr g1)
    with Cons.prems obtain st where st: "run_cells ext cs g1 = (st, Inl e)" "started = c # st"
      by (auto split: prod.splits)
    from Cons.IH[OF st(1)] obtain pre d post g st' where
      p: "cs = pre @ d # post" "st = pre @ [d]" "run_cells ext pre g1 = (st', Inr g)"
        "exec_cell ext d g = Inl e" by blast
    from p(3) Inr have "run_cells ext (c # pre) g0 = (c # st', Inr g)" by simp
    with p(1,2,4) st(2) have "c # cs = (c # pre) @ d # post \<and> started = (c # pre) @ [d]
        \<and> run_cells ext (c # pre) g0 = (c # st', Inr g) \<and> exec_cell ext d g = Inl e" by simp
    then show ?thesis by blast
  qed
qed

lemma example_run_completes:
  "case notebook example_run of
     (st, Inr g) \<Rightarrow> st = notebook_cells
        \<and> g_routed_circuit g =
            [Operation (TwoQubitGate ''ZZ'') [GridQubit 0 0, GridQubit 0 1],
             Operation (TwoQubitGate ''SWAP'') [GridQubit 0 1, GridQubit 0 2],
             Operation (TwoQubitGate ''ZZ'') [GridQubit 0 0, GridQubit 0 1],
             Operation (SingleQubitGate ''X'') [GridQubit 0 3]]
        \<and> g_final_permutation g = [0, 2, 1, 3, 4, 5, 6, 7, 8, 9]
   | (st, Inl e) \<Rightarrow> False"
  by code_simp

lemma example_unrouted_fails:
  "notebook example_unrouted
     = ([Cell_index_mapping, Cell_tket_device, Cell_passes], Inl (AssertionError Assert_valid))"
proof -
  have "case notebook example_unrouted of
     (st, Inl e) \<Rightarrow> st = [Cell_index_mapping, Cell_tket_device, Cell_passes]
        \<and> e = AssertionError Assert_valid
   | (st, Inr g) \<Rightarrow> False"
    by code_simp
  then show ?thesis by (auto split: prod.splits sum.splits)
qed

section \<open>Placement, routing and the predicate check\<close>





lemma example_globals_device:
  "g_tk_device example_globals =
     [(0, 1), (1, 2), (2, 3), (3, 4), (4, 5), (6, 7), (7, 8), (8, 9), (9, 10), (10, 11),
      (0, 6), (1, 7), (2, 8), (3, 9), (4, 10), (5, 11)]"
  by code_simp






section \<open>Two-qubit gates of the routed circuit\<close>












section \<open>The assertions of the notebook\<close>

text \<open>
  Claim C5, amended. A run of the notebook executes four assertions, each in its own
  cell: \<^verbatim>\<open>assert valid\<close> after the passes, \<^verbatim>\<open>assert len(i) == 1\<close> inside \<open>tk_to_i\<close> while
  the initial and the final map are decoded, the adjacency assertion, and the
  unitary-equivalence assertion. An \<open>AssertionError\<close> that ends a run comes from one of
  the four, raised in the cell that holds it, and a run that completes has passed all
  four: the predicates hold of the unit, every node of both maps has a one-component
  index, the adjacency loop went through the routed circuit, and the unitaries agree.
\<close>

theorem notebook_assertions:
  "(notebook ext = (started, Inl (AssertionError a)) \<longrightarrow>
      (a = Assert_valid \<and> started = [Cell_index_mapping, Cell_tket_device, Cell_passes])
    \<or> ((\<exists>i. a = Assert_index_len i)
         \<and> (started = [Cell_index_mapping, Cell_tket_device, Cell_passes, Cell_initial_map]
            \<or> started = [Cell_index_mapping, Cell_tket_device, Cell_passes, Cell_initial_map,
                          Cell_final_map]))
    \<or> (a = Assert_adjacent
         \<and> started = [Cell_index_mapping, Cell_tket_device, Cell_passes, Cell_initial_map,
                       Cell_final_map, Cell_routed_circuit, Cell_adjacency])
    \<or> (a = Assert_allclose \<and> started = notebook_cells))
   \<and> (notebook ext = (started, Inr g) \<longrightarrow>
        check_all_predicates ext (g_unit g)
      \<and> (\<forall>(n1, n2)\<in>set (unit_initial_map (g_unit g)) \<union> set (unit_final_map (g_unit g)).
           len (index n1) = 1 \<and> len (index n2) = 1)
      \<and> assert_adjacent (g_routed_circuit g) = Inr ()
      \<and> allclose_up_to_global_phase ext (problem_circuit ext) circuit_qubits
           (g_rcircuit_with_perm g) (g_initial_qubits g))"
  using notebook_assertion_sites[of ext started a] notebook_completes[of ext started g]
  by blast

text \<open>
  The theorem at the example run, which completes, and at the run whose routing pass
  leaves the circuit unrouted.
\<close>

theorem notebook_assertions_witness:
  "notebook example_unrouted
     = ([Cell_index_mapping, Cell_tket_device, Cell_passes], Inl (AssertionError Assert_valid))
   \<and> (\<exists>g. notebook example_run = (notebook_cells, Inr g)
        \<and> check_all_predicates example_run (g_unit g)
        \<and> assert_adjacent (g_routed_circuit g) = Inr ()
        \<and> allclose_up_to_global_phase example_run (problem_circuit example_run) circuit_qubits
             (g_rcircuit_with_perm g) (g_initial_qubits g))"
proof -
  from example_run_completes obtain g where g: "notebook example_run = (notebook_cells, Inr g)"
    by (auto split: prod.splits sum.splits)
  from notebook_assertions[of example_run notebook_cells Assert_valid g] g
    notebook_assertions[of example_unrouted "[Cell_index_mapping, Cell_tket_device, Cell_passes]"
      Assert_valid] example_unrouted_fails
  show ?thesis by blast
qed

text \<open>
  Claim C5 as stated fails: the run whose routing pass leaves the circuit unrouted ends
  in the cell of the passes with the \<open>AssertionError\<close> of \<^verbatim>\<open>assert valid\<close>, an assertion
  that is neither the adjacency assertion nor the unitary-equivalence assertion.
\<close>

theorem third_assertion_counterexample:
  "notebook example_unrouted
     = ([Cell_index_mapping, Cell_tket_device, Cell_passes], Inl (AssertionError Assert_valid))
   \<and> Assert_valid \<noteq> Assert_adjacent \<and> Assert_valid \<noteq> Assert_allclose"
  using example_unrouted_fails by simp

section \<open>A failed assertion ends the run\<close>

text \<open>
  Claim C6. When the cells before the adjacency cell complete and the adjacency
  assertion raises, the run of the notebook ends there: its result is that
  \<open>AssertionError\<close> and the last cell started is the adjacency cell, so the last cell of
  the notebook is never started. When the cells before the last cell complete and the
  unitary-equivalence assertion raises, the result of the run is that \<open>AssertionError\<close>.
  In general the exception that ends a run is the one raised by the last cell started,
  all cells before it completed, and no cell after it is started: nothing catches the
  exception, retries or classifies it.
\<close>

theorem failed_assertion_halts_notebook:
  "(run_cells ext [Cell_index_mapping, Cell_tket_device, Cell_passes, Cell_initial_map,
        Cell_final_map, Cell_routed_circuit] no_globals = (st, Inr g)
      \<and> exec_cell ext Cell_adjacency g = Inl (AssertionError Assert_adjacent)
    \<longrightarrow> notebook ext =
          ([Cell_index_mapping, Cell_tket_device, Cell_passes, Cell_initial_map, Cell_final_map,
            Cell_routed_circuit, Cell_adjacency], Inl (AssertionError Assert_adjacent)))
   \<and> (run_cells ext [Cell_index_mapping, Cell_tket_device, Cell_passes, Cell_initial_map,
        Cell_final_map, Cell_routed_circuit, Cell_adjacency] no_globals = (st, Inr g)
      \<and> exec_cell ext Cell_unitary g = Inl (AssertionError Assert_allclose)
    \<longrightarrow> notebook ext = (notebook_cells, Inl (AssertionError Assert_allclose)))
   \<and> (notebook ext = (started, Inl e)
    \<longrightarrow> (\<exists>pre c post g' st'. notebook_cells = pre @ c # post \<and> started = pre @ [c]
           \<and> run_cells ext pre no_globals = (st', Inr g') \<and> exec_cell ext c g' = Inl e))"
proof (intro conjI impI)
  assume a: "run_cells ext [Cell_index_mapping, Cell_tket_device, Cell_passes, Cell_initial_map,
        Cell_final_map, Cell_routed_circuit] no_globals = (st, Inr g)
      \<and> exec_cell ext Cell_adjacency g = Inl (AssertionError Assert_adjacent)"
  from run_cells_append_error[of ext _ no_globals st g Cell_adjacency _ "[Cell_unitary]"] a
  show "notebook ext =
          ([Cell_index_mapping, Cell_tket_device, Cell_passes, Cell_initial_map, Cell_final_map,
            Cell_routed_circuit, Cell_adjacency], Inl (AssertionError Assert_adjacent))"
    unfolding notebook_def notebook_cells_def by fastforce
next
  assume a: "run_cells ext [Cell_index_mapping, Cell_tket_device, Cell_passes, Cell_initial_map,
        Cell_final_map, Cell_routed_circuit, Cell_adjacency] no_globals = (st, Inr g)
      \<and> exec_cell ext Cell_unitary g = Inl (AssertionError Assert_allclose)"
  from run_cells_append_error[of ext _ no_globals st g Cell_unitary _ "[]"] a
  show "notebook ext = (notebook_cells, Inl (AssertionError Assert_allclose))"
    unfolding notebook_def notebook_cells_def by fastforce
next
  assume "notebook ext = (started, Inl e)"
  then show "\<exists>pre c post g' st'. notebook_cells = pre @ c # post \<and> started = pre @ [c]
           \<and> run_cells ext pre no_globals = (st', Inr g') \<and> exec_cell ext c g' = Inl e"
    unfolding notebook_def by (rule run_cells_Inl_first)
qed

text \<open>
  The theorem at the run with an unrouted circuit and a predicate check that accepts it,
  where the adjacency assertion fails, and at the run whose unitaries do not agree.
\<close>

theorem failed_assertion_halts_notebook_witness:
  "notebook example_unchecked =
          ([Cell_index_mapping, Cell_tket_device, Cell_passes, Cell_initial_map, Cell_final_map,
            Cell_routed_circuit, Cell_adjacency], Inl (AssertionError Assert_adjacent))
   \<and> notebook example_not_close = (notebook_cells, Inl (AssertionError Assert_allclose))
   \<and> (\<exists>pre post g' st'. notebook_cells = pre @ Cell_adjacency # post
           \<and> run_cells example_unchecked pre no_globals = (st', Inr g')
           \<and> exec_cell example_unchecked Cell_adjacency g' = Inl (AssertionError Assert_adjacent))"
proof -
  have "case run_cells example_unchecked [Cell_index_mapping, Cell_tket_device, Cell_passes,
          Cell_initial_map, Cell_final_map, Cell_routed_circuit] no_globals of
          (st, Inr g) \<Rightarrow> (case exec_cell example_unchecked Cell_adjacency g of
                            Inl e \<Rightarrow> e = AssertionError Assert_adjacent | Inr g' \<Rightarrow> False)
        | (st, Inl e) \<Rightarrow> False"
    by code_simp
  then obtain st1 g1 where 1: "run_cells example_unchecked [Cell_index_mapping, Cell_tket_device,
          Cell_passes, Cell_initial_map, Cell_final_map, Cell_routed_circuit] no_globals = (st1, Inr g1)"
      "exec_cell example_unchecked Cell_adjacency g1 = Inl (AssertionError Assert_adjacent)"
    by (auto split: prod.splits sum.splits)
  have "case run_cells example_not_close [Cell_index_mapping, Cell_tket_device, Cell_passes,
          Cell_initial_map, Cell_final_map, Cell_routed_circuit, Cell_adjacency] no_globals of
          (st, Inr g) \<Rightarrow> (case exec_cell example_not_close Cell_unitary g of
                            Inl e \<Rightarrow> e = AssertionError Assert_allclose | Inr g' \<Rightarrow> False)
        | (st, Inl e) \<Rightarrow> False"
    by code_simp
  then obtain st2 g2 where 2: "run_cells example_not_close [Cell_index_mapping, Cell_tket_device,
          Cell_passes, Cell_initial_map, Cell_final_map, Cell_routed_circuit, Cell_adjacency]
          no_globals = (st2, Inr g2)"
      "exec_cell example_not_close Cell_unitary g2 = Inl (AssertionError Assert_allclose)"
    by (auto split: prod.splits sum.splits)
  note t1 = failed_assertion_halts_notebook[of example_unchecked st1 g1, THEN conjunct1, rule_format, OF conjI[OF 1]]
  note t2 = failed_assertion_halts_notebook[of example_not_close st2 g2, THEN conjunct2, THEN conjunct1, rule_format, OF conjI[OF 2]]
  from failed_assertion_halts_notebook[of example_unchecked st1 g1 _ "AssertionError Assert_adjacent",
      THEN conjunct2, THEN conjunct2, rule_format, OF t1]
  obtain pre c post g' st' where 3: "notebook_cells = pre @ c # post"
    "[Cell_index_mapping, Cell_tket_device, Cell_passes, Cell_initial_map, Cell_final_map,
            Cell_routed_circuit, Cell_adjacency] = pre @ [c]"
    "run_cells example_unchecked pre no_globals = (st', Inr g')"
    "exec_cell example_unchecked c g' = Inl (AssertionError Assert_adjacent)" by blast
  from 3(2) have "c = Cell_adjacency"
    by (metis last_snoc last.simps list.distinct(1))
  with 3 t1 t2 show ?thesis by blast
qed

section \<open>The trigger of the workflow\<close>

text \<open>
  Claim C7, amended. The workflow is started by a push to the branch \<open>master\<close>, and by
  no other event.
\<close>

theorem deploy_docs_trigger:
  "triggered deploy_docs ev \<longleftrightarrow> ev = Push_branch ''master''"
  by (cases ev) (auto simp: triggered_def deploy_docs_def)

text \<open>
  Claim C7 as stated fails: a push to the branch \<open>main\<close> does not start the workflow
  (a push to \<open>master\<close> does).
\<close>

theorem deploy_docs_main_counterexample:
  "\<not> triggered deploy_docs (Push_branch ''main'') \<and> triggered deploy_docs (Push_branch ''master'')"
  by (simp add: triggered_def deploy_docs_def)

end
